theory Spec2Isabelle
  imports Main "HOL-Library.Word" "HOL-Library.Monad_Syntax" "HOL-Library.Signed_Division"
begin

unbundle bit_operations_syntax

section \<open>The FAT filesystem engine of fat\_fs/fat.c\<close>

text \<open>
  A shallow embedding of \<^verbatim>\<open>src/fat_fs/fat.c\<close>.  C's fixed-width unsigned integers are
  words, so every addition, multiplication and shift wraps as in the source.  The
  functions take the volume (\<^verbatim>\<open>fat_fs_t\<close>) and return it updated.  A function that
  divides by \<^verbatim>\<open>bytes_per_sector\<close> or \<^verbatim>\<open>bytes_per_cluster\<close>, or that loops until
  the directory or the chain ends, returns an option: \<open>None\<close> stands for a run that
  does not return (a division by zero, or a loop that never ends).
\<close>

type_synonym u8 = "8 word"
type_synonym u16 = "16 word"
type_synonym u32 = "32 word"

subsection \<open>Constants\<close>

definition FAT_MAXLEN_USE :: nat where "FAT_MAXLEN_USE = 32"
definition FAT_MAXLEN :: nat where "FAT_MAXLEN = 256"
definition FAT_SECTOR_SIZE :: nat where "FAT_SECTOR_SIZE = 512"
definition WIN_CHARS :: nat where "WIN_CHARS = 13"

definition CLUST_FREE :: u32 where "CLUST_FREE = 0"
definition CLUST_FIRST :: u32 where "CLUST_FIRST = 2"
definition CLUST_EOFS :: u32 where "CLUST_EOFS = 0xfffffff8"
definition CLUST_EOFE :: u32 where "CLUST_EOFE = 0xffffffff"

definition FAT16_MASK :: u32 where "FAT16_MASK = 0x0000ffff"
definition FAT32_MASK :: u32 where "FAT32_MASK = 0x0fffffff"

definition SLOT_EMPTY :: u8 where "SLOT_EMPTY = 0x00"
definition SLOT_DELETED :: u8 where "SLOT_DELETED = 0xe5"
definition ATTR_NORMAL :: u8 where "ATTR_NORMAL = 0x00"
definition ATTR_VOLUME :: u8 where "ATTR_VOLUME = 0x08"
definition ATTR_LONG_FILENAME :: u8 where "ATTR_LONG_FILENAME = 0x0f"
definition ATTR_DIRECTORY :: u8 where "ATTR_DIRECTORY = 0x10"
definition WIN_LAST :: u8 where "WIN_LAST = 0x40"
definition WIN_CNT :: u8 where "WIN_CNT = 0x3f"

subsection \<open>The volume and the block device\<close>

text \<open>
  Modelled from the spec: the block device behind the callbacks \<^verbatim>\<open>dev_read\<close> and
  \<^verbatim>\<open>dev_write\<close>, which is outside the repository's FAT code.  It is byte addressed
  and transfers the full length: \<open>dev_mem\<close> is its contents and \<open>dev_log\<close> the
  transfers made so far, oldest first, each with its byte address and size.
\<close>

datatype dev_event = DevRead u32 u16 | DevWrite u32 u16

text \<open>
  \<^verbatim>\<open>struct fat_fs_struct\<close>, with the device it points to.  \<open>sector_buffer\<close> is
  the array of \<open>FAT_SECTOR_SIZE\<close> bytes, read by index.  \<open>conv_init\<close> is not a
  field of the C struct: it stands for the two bytes \<^verbatim>\<open>conv.uchar[2]\<close> and
  \<^verbatim>\<open>conv.uchar[3]\<close> of the local union in \<^verbatim>\<open>fat_entry_get\<close>, which the FAT16
  branch reads without having written them.
\<close>

record fat_fs =
  dev_mem :: "u32 \<Rightarrow> u8"
  dev_log :: "dev_event list"
  conv_init :: u16
  isFAT32 :: u8
  sectors_per_cluster :: u16
  first_data_sector :: u32
  first_fat_sector :: u32
  first_dir_sector :: u32
  root_dir_cluster :: u32
  root_dir_sectors :: u16
  num_clusters :: u32
  num_fat_sectors :: u32
  bytes_per_sector :: u16
  bytes_per_cluster :: u16
  sector :: u32
  sector_buffer :: "nat \<Rightarrow> u8"
  dirty :: bool

text \<open>\<^verbatim>\<open>fat_dev_read\<close>: the bytes delivered (by index below the size), the count the
  callback returns, and the volume with the transfer logged.\<close>

definition fat_dev_read :: "fat_fs \<Rightarrow> u32 \<Rightarrow> u16 \<Rightarrow> u16 \<Rightarrow> (nat \<Rightarrow> u8) \<times> u16 \<times> fat_fs" where
  "fat_dev_read fs sec off sz =
     (let addr = sec * ucast (bytes_per_sector fs) + ucast off
      in (\<lambda>i. dev_mem fs (addr + of_nat i), sz,
          fs\<lparr>dev_log := dev_log fs @ [DevRead addr sz]\<rparr>))"

text \<open>\<^verbatim>\<open>fat_dev_write\<close>: \<open>sz\<close> bytes of \<open>buf\<close> go to the device.\<close>

definition fat_dev_write :: "fat_fs \<Rightarrow> u32 \<Rightarrow> u16 \<Rightarrow> (nat \<Rightarrow> u8) \<Rightarrow> u16 \<Rightarrow> u16 \<times> fat_fs" where
  "fat_dev_write fs sec off buf sz =
     (let addr = sec * ucast (bytes_per_sector fs) + ucast off
      in (sz,
          fs\<lparr>dev_mem := (\<lambda>a. if a - addr < ucast sz then buf (unat (a - addr))
                              else dev_mem fs a),
             dev_log := dev_log fs @ [DevWrite addr sz]\<rparr>))"

subsection \<open>The sector cache\<close>

definition fat_sector_cache_flush :: "fat_fs \<Rightarrow> fat_fs" where
  "fat_sector_cache_flush fs =
     (if dirty fs
      then (snd (fat_dev_write fs (sector fs) 0 (sector_buffer fs) (bytes_per_sector fs)))
             \<lparr>dirty := False\<rparr>
      else fs)"

definition fat_sector_cache_read :: "fat_fs \<Rightarrow> u32 \<Rightarrow> u16 \<times> fat_fs" where
  "fat_sector_cache_read fs sec =
     (if sec = sector fs then (bytes_per_sector fs, fs)
      else
        let fs1 = fat_sector_cache_flush fs;
            fs2 = fs1\<lparr>sector := sec\<rparr>;
            (rd, n, fs3) = fat_dev_read fs2 (sector fs2) 0 (bytes_per_sector fs2)
        in (n, fs3\<lparr>sector_buffer :=
                     (\<lambda>i. if i < unat (bytes_per_sector fs2) then rd i
                          else sector_buffer fs2 i)\<rparr>))"

definition fat_sector_cache_write :: "fat_fs \<Rightarrow> u32 \<Rightarrow> u16 \<times> fat_fs" where
  "fat_sector_cache_write fs sec =
     (let fs1 = fs\<lparr>sector := sec\<rparr>;
          fs2 = fs1\<lparr>dirty := True\<rparr>
      in (bytes_per_sector fs2, fs2))"

subsection \<open>The FAT table\<close>

definition fat_sector_calc :: "fat_fs \<Rightarrow> u32 \<Rightarrow> u32" where
  "fat_sector_calc fs c =
     (if c = 0 then first_dir_sector fs
      else (c - CLUST_FIRST) * ucast (sectors_per_cluster fs) + first_data_sector fs)"

text \<open>The union \<^verbatim>\<open>LBCONV\<close> on a little-endian machine: four bytes as one
  \<^verbatim>\<open>uint32_t\<close>, and back.\<close>

definition conv_ulong :: "u8 \<Rightarrow> u8 \<Rightarrow> u8 \<Rightarrow> u8 \<Rightarrow> u32" where
  "conv_ulong b0 b1 b2 b3 =
     ucast b0 OR push_bit 8 (ucast b1) OR push_bit 16 (ucast b2) OR push_bit 24 (ucast b3)"

definition conv_uchar :: "u32 \<Rightarrow> nat \<Rightarrow> u8" where
  "conv_uchar v k = ucast (drop_bit (8 * k) v)"

text \<open>\<^verbatim>\<open>fat_entry_get\<close>.  The comparison with the end-of-chain range is made on
  \<^verbatim>\<open>cluster_new\<close> as read; the mask is applied to the value returned.\<close>

definition fat_entry_get :: "fat_fs \<Rightarrow> u32 \<Rightarrow> (u32 \<times> fat_fs) option" where
  "fat_entry_get fs c =
     (let (off, mask) = (if isFAT32 fs \<noteq> 0 then (push_bit 2 c, FAT32_MASK)
                         else (push_bit 1 c, FAT16_MASK))
      in if bytes_per_sector fs = 0 then None
         else
           let sec = first_fat_sector fs + off div ucast (bytes_per_sector fs);
               fs1 = snd (fat_sector_cache_read fs sec);
               off1 = unat (off mod ucast (bytes_per_sector fs1));
               b0 = sector_buffer fs1 off1;
               b1 = sector_buffer fs1 (off1 + 1);
               (b2, b3) = (if isFAT32 fs1 \<noteq> 0
                           then (sector_buffer fs1 (off1 + 2), sector_buffer fs1 (off1 + 3))
                           else (ucast (conv_init fs1), ucast (drop_bit 8 (conv_init fs1))));
               cluster_new = conv_ulong b0 b1 b2 b3
           in Some (if cluster_new \<ge> (CLUST_EOFS AND mask) then CLUST_EOFS
                    else cluster_new AND mask, fs1))"

definition fat_cluster_last_p :: "u32 \<Rightarrow> bool" where
  "fat_cluster_last_p c = (c \<ge> CLUST_EOFS)"

definition fat_cluster_free_p :: "u32 \<Rightarrow> bool" where
  "fat_cluster_free_p c = (c = CLUST_FREE)"

definition fat_entry_get_check :: "fat_fs \<Rightarrow> u32 \<Rightarrow> (u32 \<times> fat_fs) option" where
  "fat_entry_get_check fs c =
     do {
       (cluster_new, fs1) \<leftarrow> fat_entry_get fs c;
       if fat_cluster_free_p cluster_new then Some (CLUST_EOFE, fs1)
       else Some (cluster_new, fs1)
     }"

definition fat_entry_set :: "fat_fs \<Rightarrow> u32 \<Rightarrow> u32 \<Rightarrow> fat_fs option" where
  "fat_entry_set fs c cluster_new =
     (let off = (if isFAT32 fs \<noteq> 0 then push_bit 2 c else push_bit 1 c)
      in if bytes_per_sector fs = 0 then None
         else
           let sec = first_fat_sector fs + off div ucast (bytes_per_sector fs);
               fs1 = snd (fat_sector_cache_read fs sec);
               off1 = unat (off mod ucast (bytes_per_sector fs1));
               buf1 = (sector_buffer fs1)
                        (off1 := conv_uchar cluster_new 0, off1 + 1 := conv_uchar cluster_new 1);
               buf2 = (if isFAT32 fs1 \<noteq> 0
                       then buf1(off1 + 2 := conv_uchar cluster_new 2,
                                 off1 + 3 := conv_uchar cluster_new 3)
                       else buf1)
           in Some (snd (fat_sector_cache_write (fs1\<lparr>sector_buffer := buf2\<rparr>) sec)))"

subsection \<open>Strings and name matching\<close>

text \<open>A C string is the list of its bytes before the terminating NUL.  \<open>cstr buf i lim\<close>
  reads one from the array \<open>buf\<close>, from index \<open>i\<close> and below index \<open>lim\<close>.\<close>

type_synonym cstring = "u8 list"

function cstr :: "(nat \<Rightarrow> u8) \<Rightarrow> nat \<Rightarrow> nat \<Rightarrow> cstring" where
  "cstr buf i lim = (if i < lim \<and> buf i \<noteq> 0 then buf i # cstr buf (i + 1) lim else [])"
  by pat_completeness auto
termination
  by (relation "measure (\<lambda>(buf, i, lim). lim - i)") auto

declare cstr.simps [simp del]

definition toupper :: "u8 \<Rightarrow> u8" where
  "toupper c = (if 0x61 \<le> c \<and> c \<le> 0x7a then c - 0x20 else c)"

text \<open>\<^verbatim>\<open>szWildMatch8\<close>.  The two cursors \<^verbatim>\<open>s\<close> and \<^verbatim>\<open>p\<close> start together at
  \<^verbatim>\<open>str\<close> and \<^verbatim>\<open>pat\<close> and advance together, so they are \<open>drop i str\<close> and
  \<open>drop i pat\<close>; a cursor at the end of its list reads the NUL.\<close>

function szWildMatch8_loop :: "bool \<Rightarrow> cstring \<Rightarrow> cstring \<Rightarrow> nat \<Rightarrow> bool" where
  "szWildMatch8_loop star pat str i =
     (if i < length str
      then
        (if i < length pat \<and> pat ! i = 0x3f
         then (if str ! i = 0x2e
               then (if \<not> star then False else szWildMatch8_loop star pat (tl str) 0)
               else szWildMatch8_loop star pat str (i + 1))
         else if i < length pat \<and> pat ! i = 0x2a
         then (if drop (i + 1) pat = [] then True
               else szWildMatch8_loop True (drop (i + 1) pat) (drop i str) 0)
         else
           (if i < length pat \<and> toupper (str ! i) = toupper (pat ! i)
            then szWildMatch8_loop star pat str (i + 1)
            else (if \<not> star then False else szWildMatch8_loop star pat (tl str) 0)))
      else
        (let j = (if i < length pat \<and> pat ! i = 0x2a then i + 1 else i)
         in \<not> j < length pat))"
  by pat_completeness auto
termination
  by (relation "measures [\<lambda>(star, pat, str, i). length pat,
                          \<lambda>(star, pat, str, i). length str,
                          \<lambda>(star, pat, str, i). length str - i]") auto

declare szWildMatch8_loop.simps [simp del]

definition szWildMatch8 :: "cstring \<Rightarrow> cstring \<Rightarrow> bool" where
  "szWildMatch8 pat str = szWildMatch8_loop False pat str 0"

text \<open>\<^verbatim>\<open>dos2str\<close>, reading the name and the extension of the slot at \<open>de\<close> in
  \<open>buf\<close>.\<close>

definition dos2str :: "(nat \<Rightarrow> u8) \<Rightarrow> nat \<Rightarrow> cstring" where
  "dos2str buf de =
     (let dos = takeWhile (\<lambda>b. b \<noteq> 0 \<and> b \<noteq> 0x20) (map (\<lambda>k. buf (de + k)) [0..<8]);
          ext = takeWhile (\<lambda>b. b \<noteq> 0 \<and> b \<noteq> 0x20) (map (\<lambda>k. buf (de + 8 + k)) [0..<3])
      in if buf (de + 8) \<noteq> 0 \<and> buf (de + 8) \<noteq> 0x20 then dos @ [0x2e] @ ext else dos)"

subsection \<open>Directory slots\<close>

text \<open>A \<^verbatim>\<open>fat_de_t *\<close> always points into \<open>sector_buffer\<close>: it is the index of the
  slot's first byte.  The fields of the packed struct are read at their offsets.\<close>

definition de_name0 :: "(nat \<Rightarrow> u8) \<Rightarrow> nat \<Rightarrow> u8" where
  "de_name0 buf de = buf de"

definition de_attributes :: "(nat \<Rightarrow> u8) \<Rightarrow> nat \<Rightarrow> u8" where
  "de_attributes buf de = buf (de + 11)"

definition de_cluster_high :: "(nat \<Rightarrow> u8) \<Rightarrow> nat \<Rightarrow> u16" where
  "de_cluster_high buf de = ucast (buf (de + 20)) OR push_bit 8 (ucast (buf (de + 21)))"

definition de_cluster_low :: "(nat \<Rightarrow> u8) \<Rightarrow> nat \<Rightarrow> u16" where
  "de_cluster_low buf de = ucast (buf (de + 26)) OR push_bit 8 (ucast (buf (de + 27)))"

definition de_file_size :: "(nat \<Rightarrow> u8) \<Rightarrow> nat \<Rightarrow> u32" where
  "de_file_size buf de =
     conv_ulong (buf (de + 28)) (buf (de + 29)) (buf (de + 30)) (buf (de + 31))"

definition de_file_size_update :: "(nat \<Rightarrow> u8) \<Rightarrow> nat \<Rightarrow> u32 \<Rightarrow> (nat \<Rightarrow> u8)" where
  "de_file_size_update buf de v =
     buf(de + 28 := conv_uchar v 0, de + 29 := conv_uchar v 1,
         de + 30 := conv_uchar v 2, de + 31 := conv_uchar v 3)"

definition fat_de_last_p :: "(nat \<Rightarrow> u8) \<Rightarrow> nat \<Rightarrow> bool" where
  "fat_de_last_p buf de = (de_name0 buf de = SLOT_EMPTY)"

definition fat_de_free_p :: "(nat \<Rightarrow> u8) \<Rightarrow> nat \<Rightarrow> bool" where
  "fat_de_free_p buf de = (de_name0 buf de = SLOT_DELETED)"

definition fat_de_attr_long_filename_p :: "(nat \<Rightarrow> u8) \<Rightarrow> nat \<Rightarrow> bool" where
  "fat_de_attr_long_filename_p buf de =
     (de_attributes buf de AND ATTR_LONG_FILENAME = ATTR_LONG_FILENAME)"

definition fat_de_attr_volume_p :: "(nat \<Rightarrow> u8) \<Rightarrow> nat \<Rightarrow> bool" where
  "fat_de_attr_volume_p buf de = (de_attributes buf de AND ATTR_VOLUME = ATTR_VOLUME)"

definition fat_de_attr_dir_p :: "(nat \<Rightarrow> u8) \<Rightarrow> nat \<Rightarrow> bool" where
  "fat_de_attr_dir_p buf de = (de_attributes buf de AND ATTR_DIRECTORY = ATTR_DIRECTORY)"

subsection \<open>Allocation\<close>

text \<open>The layout constants of a volume: everything but the device and the cache.
  No operation changes them.\<close>

definition geometry :: "fat_fs \<Rightarrow> fat_fs" where
  "geometry fs = fs\<lparr>dev_mem := (\<lambda>a. 0), dev_log := [], sector := 0,
                     sector_buffer := (\<lambda>i. 0), dirty := False\<rparr>"

lemma geometry_fields:
  "geometry fs1 = geometry fs \<Longrightarrow>
     conv_init fs1 = conv_init fs \<and> isFAT32 fs1 = isFAT32 fs \<and>
     sectors_per_cluster fs1 = sectors_per_cluster fs \<and>
     first_data_sector fs1 = first_data_sector fs \<and>
     first_fat_sector fs1 = first_fat_sector fs \<and>
     first_dir_sector fs1 = first_dir_sector fs \<and>
     root_dir_cluster fs1 = root_dir_cluster fs \<and>
     root_dir_sectors fs1 = root_dir_sectors fs \<and>
     num_clusters fs1 = num_clusters fs \<and>
     num_fat_sectors fs1 = num_fat_sectors fs \<and>
     bytes_per_sector fs1 = bytes_per_sector fs \<and>
     bytes_per_cluster fs1 = bytes_per_cluster fs"
  unfolding geometry_def by (cases fs, cases fs1) simp

lemma geometry_upd [simp]:
  "geometry (fs\<lparr>dev_mem := m\<rparr>) = geometry fs"
  "geometry (fs\<lparr>dev_log := l\<rparr>) = geometry fs"
  "geometry (fs\<lparr>sector := s\<rparr>) = geometry fs"
  "geometry (fs\<lparr>sector_buffer := b\<rparr>) = geometry fs"
  "geometry (fs\<lparr>dirty := d\<rparr>) = geometry fs"
  by (simp_all add: geometry_def)

lemma geometry_flush [simp]:
  "geometry (fat_sector_cache_flush fs) = geometry fs"
  by (simp add: fat_sector_cache_flush_def fat_dev_write_def Let_def)

lemma geometry_cache_read [simp]:
  "geometry (snd (fat_sector_cache_read fs sec)) = geometry fs"
  by (simp add: fat_sector_cache_read_def fat_dev_read_def Let_def)

lemma geometry_cache_write [simp]:
  "geometry (snd (fat_sector_cache_write fs sec)) = geometry fs"
  by (simp add: fat_sector_cache_write_def Let_def)

lemma fat_entry_get_geometry:
  "fat_entry_get fs c = Some (v, fs1) \<Longrightarrow> geometry fs1 = geometry fs"
  by (auto simp: fat_entry_get_def Let_def split: if_splits prod.splits)

lemma fat_entry_set_geometry:
  "fat_entry_set fs c v = Some fs1 \<Longrightarrow> geometry fs1 = geometry fs"
  by (auto simp: fat_entry_set_def Let_def split: if_splits prod.splits)

lemma unat_succ_lt: "(c::u32) < n \<Longrightarrow> unat (c + 1) = unat c + 1"
proof -
  assume "c < n"
  then have "unat c < unat n" by (simp add: word_less_nat_alt)
  moreover have "unat n < 2 ^ 32" using unsigned_less [of n, where 'a=nat] by simp
  ultimately have "unat c + 1 < 2 ^ 32" by simp
  then show ?thesis by (simp add: unat_word_ariths)
qed

text \<open>The loop of \<^verbatim>\<open>fat_cluster_free_find\<close>, from \<open>c\<close> on.\<close>

function fat_cluster_free_find :: "fat_fs \<Rightarrow> u32 \<Rightarrow> (u32 \<times> fat_fs) option" where
  "fat_cluster_free_find fs c =
     (if c < num_clusters fs
      then (case fat_entry_get fs c of
              None \<Rightarrow> None
            | Some (v, fs1) \<Rightarrow>
                if fat_cluster_free_p v then Some (c, fs1)
                else fat_cluster_free_find fs1 (c + 1))
      else Some (0, fs))"
  by pat_completeness auto
termination
proof (relation "measure (\<lambda>(fs, c). unat (num_clusters fs) - unat c)")
  show "wf (measure (\<lambda>(fs, c). unat (num_clusters fs) - unat c))"
    by simp
next
  fix fs :: fat_fs and c :: u32 and x2 v fs1
  assume lt: "c < num_clusters fs" and get: "fat_entry_get fs c = Some x2" and x2: "(v, fs1) = x2"
  have n: "num_clusters fs1 = num_clusters fs"
    using get x2 fat_entry_get_geometry [of fs c v fs1] geometry_fields [of fs1 fs] by simp
  have "unat c < unat (num_clusters fs)"
    using lt by (simp add: word_less_nat_alt)
  moreover have "unat (c + 1) = unat c + 1"
    using lt by (rule unat_succ_lt)
  ultimately show "((fs1, c + 1), (fs, c)) \<in> measure (\<lambda>(fs, c). unat (num_clusters fs) - unat c)"
    using n by simp
qed

declare fat_cluster_free_find.simps [simp del]

definition fat_cluster_chain_append :: "fat_fs \<Rightarrow> u32 \<Rightarrow> u32 \<Rightarrow> (u32 \<times> fat_fs) option" where
  "fat_cluster_chain_append fs cluster_start cluster_new =
     do {
       (v, fs1) \<leftarrow> fat_entry_get fs cluster_start;
       fs2 \<leftarrow> fat_entry_set fs1 cluster_start cluster_new;
       Some (cluster_new, fs2)
     }"

text \<open>The loop of \<^verbatim>\<open>fat_clusters_allocate\<close>.\<close>

function fat_clusters_allocate_loop ::
    "fat_fs \<Rightarrow> u32 \<Rightarrow> u32 \<Rightarrow> u32 \<Rightarrow> (u32 \<times> fat_fs) option" where
  "fat_clusters_allocate_loop fs num cluster_next cluster_first =
     (if num \<noteq> 0
      then
        (case fat_cluster_free_find fs CLUST_FIRST of
           None \<Rightarrow> None
         | Some (cluster_new, fs1) \<Rightarrow>
             if cluster_new = 0 then Some (0, fs1)
             else
               (case fat_entry_set fs1 cluster_new CLUST_EOFE of
                  None \<Rightarrow> None
                | Some fs2 \<Rightarrow>
                    (case (if cluster_next \<noteq> 0
                           then fat_cluster_chain_append fs2 cluster_next cluster_new
                           else Some (cluster_new, fs2)) of
                       None \<Rightarrow> None
                     | Some (r, fs3) \<Rightarrow>
                         fat_clusters_allocate_loop fs3 (num - 1) cluster_new
                           (if cluster_first = 0 then cluster_new else cluster_first))))
      else Some (cluster_first, fs))"
  by pat_completeness auto
termination
  by (relation "measure (\<lambda>(fs, num, cluster_next, cluster_first). unat num)")
     (auto simp: unat_minus_one unat_gt_0)

declare fat_clusters_allocate_loop.simps [simp del]

definition fat_clusters_allocate :: "fat_fs \<Rightarrow> u32 \<Rightarrow> u32 \<Rightarrow> (u32 \<times> fat_fs) option" where
  "fat_clusters_allocate fs cluster_start sz =
     (if sz = 0 then Some (0, fs)
      else if bytes_per_cluster fs = 0 then None
      else fat_clusters_allocate_loop fs
             ((sz + ucast (bytes_per_cluster fs) - 1) div ucast (bytes_per_cluster fs))
             cluster_start 0)"

subsection \<open>The directory iterator\<close>

record fat_de_iter =
  it_sectors :: u16
  it_cluster :: u32
  it_sector :: u32
  it_offset :: u16

definition fat_dir_sectors :: "fat_fs \<Rightarrow> u32 \<Rightarrow> u16" where
  "fat_dir_sectors fs c =
     (if isFAT32 fs = 0 \<and> c = root_dir_cluster fs then root_dir_sectors fs
      else sectors_per_cluster fs)"

definition fat_de_first :: "fat_fs \<Rightarrow> u32 \<Rightarrow> nat \<times> fat_de_iter \<times> fat_fs" where
  "fat_de_first fs c =
     (let it = \<lparr>it_sectors = fat_dir_sectors fs c, it_cluster = c,
                 it_sector = fat_sector_calc fs c, it_offset = 0\<rparr>;
          fs1 = snd (fat_sector_cache_read fs (it_sector it))
      in (0, it, fs1))"

text \<open>\<^verbatim>\<open>fat_de_next\<close>.  The test that leaves the current chunk compares the sector
  number \<^verbatim>\<open>de_iter->sector\<close> with the sector count \<^verbatim>\<open>de_iter->sectors\<close>, as the
  source does.\<close>

definition fat_de_next :: "fat_fs \<Rightarrow> fat_de_iter \<Rightarrow> (nat \<times> fat_de_iter \<times> fat_fs) option" where
  "fat_de_next fs it =
     (let it1 = it\<lparr>it_offset := it_offset it + 32\<rparr>
      in if it_offset it1 \<ge> bytes_per_sector fs
         then
           (let it2 = it1\<lparr>it_offset := 0, it_sector := it_sector it1 + 1\<rparr>
            in do {
              (it5, fs4) \<leftarrow>
                (if it_sector it2 \<ge> ucast (it_sectors it2)
                 then do {
                   (cluster_next, fs1) \<leftarrow> fat_entry_get_check fs (it_cluster it2);
                   (cluster_next1, it3, fs3) \<leftarrow>
                     (if fat_cluster_last_p cluster_next
                      then do {
                        (cn, fs2) \<leftarrow> fat_clusters_allocate fs1 (it_cluster it2) 1;
                        let buf = (\<lambda>i. if i < FAT_SECTOR_SIZE then 0 else sector_buffer fs2 i);
                        let buf1 = buf(0 := SLOT_EMPTY);
                        let it3 = it2\<lparr>it_sector := fat_sector_calc fs2 cn\<rparr>;
                        Some (cn, it3,
                              snd (fat_sector_cache_write (fs2\<lparr>sector_buffer := buf1\<rparr>)
                                     (it_sector it3)))
                      }
                      else Some (cluster_next, it2, fs1));
                   let it4 = it3\<lparr>it_cluster := cluster_next1\<rparr>;
                   Some (it4\<lparr>it_sector := fat_sector_calc fs3 (it_cluster it4)\<rparr>, fs3)
                 }
                 else Some (it2, fs));
              Some (unat (it_offset it5), it5, snd (fat_sector_cache_read fs4 (it_sector it5)))
            })
         else Some (unat (it_offset it1), it1, fs))"

subsection \<open>Searching a directory\<close>

text \<open>\<^verbatim>\<open>fat_ff_t\<close>.  The byte arrays \<^verbatim>\<open>short_name\<close>, \<^verbatim>\<open>name\<close> and the copied
  slot \<^verbatim>\<open>de\<close> are read by index.\<close>

record fat_ff =
  parent_dir_cluster :: u32
  ff_cluster :: u32
  ff_de_sector :: u32
  ff_de_offset :: u32
  isdir :: bool
  short_name :: "nat \<Rightarrow> u8"
  ff_name :: "nat \<Rightarrow> u8"
  ff_de :: "nat \<Rightarrow> u8"

text \<open>The thirteen characters of a long-filename slot: the low bytes of
  \<^verbatim>\<open>wePart1\<close> (offset 1), \<^verbatim>\<open>wePart2\<close> (offset 14) and \<^verbatim>\<open>wePart3\<close> (offset 28).\<close>

definition we_char :: "(nat \<Rightarrow> u8) \<Rightarrow> nat \<Rightarrow> nat \<Rightarrow> u8" where
  "we_char buf de k =
     (if k < 5 then buf (de + 1 + k * 2)
      else if k < 11 then buf (de + 14 + (k - 5) * 2)
      else buf (de + 28 + (k - 11) * 2))"

text \<open>The loop of \<^verbatim>\<open>fat_dir_search\<close>, at the slot \<open>de\<close>.  It ends at an empty slot, or
  never when the directory's chain is a cycle of used slots.\<close>

partial_function (option) fat_dir_search_loop ::
    "cstring \<Rightarrow> fat_fs \<Rightarrow> fat_de_iter \<Rightarrow> nat \<Rightarrow> fat_ff \<Rightarrow> bool \<Rightarrow> (bool \<times> fat_ff \<times> fat_fs) option" where
  "fat_dir_search_loop name fs it de ff longmatch =
     (if fat_de_last_p (sector_buffer fs) de then Some (False, ff, fs)
      else if fat_de_free_p (sector_buffer fs) de
      then do {
        (de1, it1, fs1) \<leftarrow> fat_de_next fs it;
        fat_dir_search_loop name fs1 it1 de1 ff longmatch
      }
      else if fat_de_attr_long_filename_p (sector_buffer fs) de
      then
        (let weCnt = sector_buffer fs de;
             ff1 = (if weCnt AND WIN_LAST \<noteq> 0
                    then ff\<lparr>ff_name := (\<lambda>i. if i < FAT_MAXLEN then 0 else ff_name ff i)\<rparr>
                    else ff);
             nameoffset = unat (((weCnt AND WIN_CNT) - 1) * 13);
             ff2 = ff1\<lparr>ff_name :=
                     (\<lambda>i. if nameoffset \<le> i \<and> i < nameoffset + WIN_CHARS
                          then we_char (sector_buffer fs) de (i - nameoffset)
                          else ff_name ff1 i)\<rparr>;
             longmatch1 = (if weCnt AND WIN_CNT = 1
                           then szWildMatch8 name (cstr (ff_name ff2) 0 FAT_MAXLEN)
                           else longmatch)
         in do {
           (de1, it1, fs1) \<leftarrow> fat_de_next fs it;
           fat_dir_search_loop name fs1 it1 de1 ff2 longmatch1
         })
      else
        (let matchspace = dos2str (sector_buffer fs) de;
             match = szWildMatch8 name matchspace
         in if matchspace \<noteq> [0x2e] \<and> (match \<or> longmatch)
               \<and> \<not> fat_de_attr_volume_p (sector_buffer fs) de
            then
              (let ff1 = ff\<lparr>ff_de_sector := it_sector it, ff_de_offset := ucast (it_offset it),
                             ff_de := (\<lambda>i. sector_buffer fs (de + i))\<rparr>;
                   ff2 = (if \<not> longmatch
                          then ff1\<lparr>ff_name :=
                                  (\<lambda>i. if i < length matchspace then matchspace ! i
                                       else if i = length matchspace then 0
                                       else ff_name ff1 i)\<rparr>
                          else ff1);
                   ff3 = ff2\<lparr>ff_cluster := push_bit 16 (ucast (de_cluster_high (ff_de ff2) 0))
                                             OR ucast (de_cluster_low (ff_de ff2) 0)\<rparr>;
                   ff4 = ff3\<lparr>isdir := fat_de_attr_dir_p (sector_buffer fs) de\<rparr>
               in Some (True, ff4, fs))
            else do {
              (de1, it1, fs1) \<leftarrow> fat_de_next fs it;
              fat_dir_search_loop name fs1 it1 de1 ff longmatch
            }))"

declare fat_dir_search_loop.simps [code]

definition fat_dir_search ::
    "fat_fs \<Rightarrow> u32 \<Rightarrow> cstring \<Rightarrow> fat_ff \<Rightarrow> (bool \<times> fat_ff \<times> fat_fs) option" where
  "fat_dir_search fs dir_cluster name ff =
     (let ff1 = ff\<lparr>ff_name := (\<lambda>i. if i < FAT_MAXLEN then 0 else ff_name ff i)\<rparr>;
          ff2 = ff1\<lparr>short_name := (\<lambda>i. if i < 12 then 0 else short_name ff1 i)\<rparr>;
          (de, it, fs1) = fat_de_first fs dir_cluster
      in fat_dir_search_loop name fs1 it de ff2 False)"

text \<open>The loop of \<^verbatim>\<open>fat_search\<close> over the rest \<open>p\<close> of the pathname.  A component of
  \<open>FAT_MAXLEN_USE\<close> characters or more overruns \<^verbatim>\<open>tmp\<close>: no result.\<close>

function fat_search_loop :: "fat_fs \<Rightarrow> cstring \<Rightarrow> fat_ff \<Rightarrow> (bool \<times> fat_ff \<times> fat_fs) option" where
  "fat_search_loop fs p ff =
     (if p = [] then Some (True, ff, fs)
      else
        (let tmp = takeWhile (\<lambda>c. c \<noteq> 0x2f) p;
             p1 = dropWhile (\<lambda>c. c \<noteq> 0x2f) p
         in if length tmp \<ge> FAT_MAXLEN_USE then None
            else if tmp = [] then Some (False, ff, fs)
            else
              (case fat_dir_search fs (parent_dir_cluster ff) tmp ff of
                 None \<Rightarrow> None
               | Some (found, ff1, fs1) \<Rightarrow>
                   if \<not> found
                   then Some (False,
                              if p1 \<noteq> [] then ff1\<lparr>parent_dir_cluster := 0\<rparr> else ff1, fs1)
                   else if p1 \<noteq> []
                   then
                     (if \<not> isdir ff1 then Some (False, ff1, fs1)
                      else fat_search_loop fs1 (tl p1)
                             (if tl p1 \<noteq> [] then ff1\<lparr>parent_dir_cluster := ff_cluster ff1\<rparr>
                              else ff1))
                   else fat_search_loop fs1 p1 ff1)))"
  by pat_completeness auto
termination
proof (relation "measure (\<lambda>(fs, p, ff). length p)", goal_cases)
  case 1
  show ?case by simp
next
  case (2 fs p ff tmp p1)
  have "length p1 \<le> length p"
    using 2 length_dropWhile_le [of "\<lambda>c. c \<noteq> 0x2f" p] by simp
  moreover have "length (tl p1) < length p1"
    using 2 by simp
  ultimately show ?case by simp
next
  case (3 fs p ff tmp p1)
  from 3 have "p1 = []" by blast
  moreover from 3 have "p \<noteq> []" by blast
  ultimately show ?case by simp
qed

declare fat_search_loop.simps [simp del]

definition fat_search ::
    "fat_fs \<Rightarrow> cstring option \<Rightarrow> fat_ff \<Rightarrow> (bool \<times> fat_ff \<times> fat_fs) option" where
  "fat_search fs pathname ff =
     (case pathname of
        None \<Rightarrow> Some (False, ff, fs)
      | Some p \<Rightarrow>
          if p = [] then Some (False, ff, fs)
          else fat_search_loop fs p (ff\<lparr>parent_dir_cluster := root_dir_cluster fs\<rparr>))"

subsection \<open>File handles\<close>

text \<open>\<^verbatim>\<open>struct fat_struct\<close>; the volume it points to is passed beside it.  The open
  flags of \<^verbatim>\<open>sys/fcntl.h\<close> are not part of the repository: the functions
  that test them take their values as a parameter.\<close>

record fat =
  mode :: u32
  file_offset :: u32
  file_size :: u32
  start_cluster :: u32
  cluster :: u32
  de_sector :: u32
  de_offset :: u32

record fcntl =
  O_WRONLY :: u32
  O_RDWR :: u32
  O_APPEND :: u32
  O_CREAT :: u32
  O_TRUNC :: u32

datatype fat_errno = EFAULT | EISDIR | EINVAL | ENOENT


text \<open>The local \<^verbatim>\<open>fat_ff_t ff\<close> of \<^verbatim>\<open>fat_open\<close> and \<^verbatim>\<open>fat_unlink\<close> starts
  uninitialised; each field is written before it is read.\<close>

definition ff_init :: fat_ff where
  "ff_init = \<lparr>parent_dir_cluster = 0, ff_cluster = 0, ff_de_sector = 0, ff_de_offset = 0,
               isdir = False, short_name = (\<lambda>i. 0), ff_name = (\<lambda>i. 0), ff_de = (\<lambda>i. 0)\<rparr>"

definition fat_find ::
    "fat_fs \<Rightarrow> fat \<Rightarrow> cstring option \<Rightarrow> fat_ff \<Rightarrow> (fat option \<times> fat_ff \<times> fat_fs) option" where
  "fat_find fs fat pathname ff =
     do {
       (found, ff1, fs1) \<leftarrow> fat_search fs pathname ff;
       if \<not> found then Some (None, ff1, fs1)
       else Some (Some (fat\<lparr>start_cluster := ff_cluster ff1, cluster := ff_cluster ff1,
                            file_offset := 0, file_size := de_file_size (ff_de ff1) 0,
                            de_sector := ff_de_sector ff1, de_offset := ff_de_offset ff1\<rparr>),
                  ff1, fs1)
     }"

definition fat_size_set :: "fat_fs \<Rightarrow> fat \<Rightarrow> u32 \<Rightarrow> fat_fs" where
  "fat_size_set fs fat sz =
     (let de = unat (de_offset fat);
          fs1 = snd (fat_sector_cache_read fs (de_sector fat));
          fs2 = fs1\<lparr>sector_buffer := de_file_size_update (sector_buffer fs1) de sz\<rparr>
      in snd (fat_sector_cache_write fs2 (de_sector fat)))"

subsection \<open>lseek\<close>




subsection \<open>Statistics\<close>

record fat_stats_t =
  total :: u32
  free :: u32
  alloc :: u32

function fat_stats_loop :: "fat_fs \<Rightarrow> u32 \<Rightarrow> u32 \<Rightarrow> (u32 \<times> fat_fs) option" where
  "fat_stats_loop fs c n =
     (if c < num_clusters fs
      then (case fat_entry_get fs c of
              None \<Rightarrow> None
            | Some (v, fs1) \<Rightarrow>
                fat_stats_loop fs1 (c + 1) (if \<not> fat_cluster_free_p v then n + 1 else n))
      else Some (n, fs))"
  by pat_completeness auto
termination
proof (relation "measure (\<lambda>(fs, c, n). unat (num_clusters fs) - unat c)", goal_cases)
  case 1
  show ?case by simp
next
  case (2 fs c n x2 v fs1)
  have "num_clusters fs1 = num_clusters fs"
    using 2 fat_entry_get_geometry [of fs c v fs1] geometry_fields [of fs1 fs] by simp
  moreover have "unat c < unat (num_clusters fs)"
    using 2 by (simp add: word_less_nat_alt)
  moreover have "unat (c + 1) = unat c + 1"
    using 2 by (simp add: unat_succ_lt)
  ultimately show ?case by simp
qed

declare fat_stats_loop.simps [simp del]

definition fat_stats :: "fat_fs \<Rightarrow> (fat_stats_t \<times> fat_fs) option" where
  "fat_stats fs =
     do {
       (n, fs1) \<leftarrow> fat_stats_loop fs CLUST_FIRST 0;
       let stats = \<lparr>total = num_clusters fs1, free = 0, alloc = n\<rparr>;
       Some (stats\<lparr>free := total stats - alloc stats\<rparr>, fs1)
     }"

subsection \<open>Creating a file\<close>

text \<open>\<^verbatim>\<open>fat_de_sfn_create\<close> writes the slot at \<open>de\<close>: name and extension in upper case,
  padded with spaces, then the fixed dates, the cluster and the size.  The byte
  \<^verbatim>\<open>lowerCase\<close> (offset 12) is left as it was.\<close>

definition fat_de_sfn_create ::
    "(nat \<Rightarrow> u8) \<Rightarrow> nat \<Rightarrow> cstring \<Rightarrow> u32 \<Rightarrow> u32 \<Rightarrow> (nat \<Rightarrow> u8)" where
  "fat_de_sfn_create buf de filename sz c =
     (let base = take 8 (takeWhile (\<lambda>ch. ch \<noteq> 0x2e) filename);
          rest = dropWhile (\<lambda>ch. ch \<noteq> 0x2e) filename;
          ext = take 3 (if rest \<noteq> [] then tl rest else rest);
          name8 = map toupper base @ replicate (8 - length base) 0x20;
          ext3 = map toupper ext @ replicate (3 - length ext) 0x20;
          slot = name8 @ ext3 @
                 [ATTR_NORMAL, buf (de + 12), 0x00, 0x00, 0x00, 0x20, 0x00, 0x20, 0x00,
                  conv_uchar (drop_bit 16 c) 0, conv_uchar (drop_bit 16 c) 1,
                  0x00, 0x00, 0x20, 0x00,
                  conv_uchar c 0, conv_uchar c 1,
                  conv_uchar sz 0, conv_uchar sz 1, conv_uchar sz 2, conv_uchar sz 3]
      in (\<lambda>i. if de \<le> i \<and> i < de + 32 then slot ! (i - de) else buf i))"

text \<open>The loop of \<^verbatim>\<open>fat_de_add\<close>: its body does nothing, so it runs to the empty
  slot that ends the directory.\<close>

partial_function (option) fat_de_add_loop ::
    "fat_fs \<Rightarrow> fat_de_iter \<Rightarrow> nat \<Rightarrow> (nat \<times> fat_de_iter \<times> fat_fs) option" where
  "fat_de_add_loop fs it de =
     (if fat_de_last_p (sector_buffer fs) de then Some (de, it, fs)
      else do {
        (de1, it1, fs1) \<leftarrow> fat_de_next fs it;
        fat_de_add_loop fs1 it1 de1
      })"

declare fat_de_add_loop.simps [code]

definition fat_de_add ::
    "fat_fs \<Rightarrow> fat \<Rightarrow> cstring \<Rightarrow> u32 \<Rightarrow> u32 \<Rightarrow> u32 \<Rightarrow> (bool \<times> fat \<times> fat_fs) option" where
  "fat_de_add fs fat filename cluster_dir cluster_start sz =
     do {
       let (de0, it0, fs0) = fat_de_first fs cluster_dir;
       (de, it, fs1) \<leftarrow> fat_de_add_loop fs0 it0 de0;
       let fat1 = fat\<lparr>de_sector := it_sector it, de_offset := ucast (it_offset it)\<rparr>;
       fs3 \<leftarrow> (if fat_de_last_p (sector_buffer fs1) de
               then do {
                 (de_next, it1, fs2) \<leftarrow> fat_de_next fs1 it;
                 Some (snd (fat_sector_cache_read fs2 (de_sector fat1)))
               }
               else Some fs1);
       let fs4 = fs3\<lparr>sector_buffer :=
                       fat_de_sfn_create (sector_buffer fs3) de filename sz cluster_start\<rparr>;
       let fs5 = snd (fat_sector_cache_write fs4 (de_sector fat1));
       Some (True, fat1, fat_sector_cache_flush fs5)
     }"

text \<open>The part of the pathname after its last slash.\<close>

function after_last_slash :: "cstring \<Rightarrow> cstring" where
  "after_last_slash p =
     (if 0x2f \<in> set p then after_last_slash (tl (dropWhile (\<lambda>c. c \<noteq> 0x2f) p)) else p)"
  by pat_completeness auto
termination
proof (relation "measure length", goal_cases)
  case 1
  show ?case by simp
next
  case (2 p)
  have "length (dropWhile (\<lambda>c. c \<noteq> 0x2f) p) \<le> length p"
    by (rule length_dropWhile_le)
  moreover have "dropWhile (\<lambda>c. c \<noteq> 0x2f) p \<noteq> []"
    using 2 by simp
  ultimately show ?case by (cases "dropWhile (\<lambda>c. c \<noteq> 0x2f) p") simp_all
qed

declare after_last_slash.simps [simp del]

definition fat_create ::
    "fat_fs \<Rightarrow> fat \<Rightarrow> cstring \<Rightarrow> u32 \<Rightarrow> fat_ff \<Rightarrow> (fat option \<times> fat_fs) option" where
  "fat_create fs fat pathname sz ff =
     (if parent_dir_cluster ff = 0 then Some (None, fs)
      else
        (let filename = after_last_slash pathname;
             fat1 = fat\<lparr>file_size := sz, file_offset := 0\<rparr>
         in do {
           (c, fs1) \<leftarrow> fat_clusters_allocate fs 0 (if file_size fat1 = 0 then 1 else file_size fat1);
           let fat2 = fat1\<lparr>start_cluster := c\<rparr>;
           if start_cluster fat2 = 0 then Some (None, fs1)
           else do {
             (ok, fat3, fs2) \<leftarrow> fat_de_add fs1 fat2 filename (parent_dir_cluster ff)
                                   (start_cluster fat2) (file_size fat2);
             if \<not> ok then Some (None, fs2)
             else Some (Some (fat3\<lparr>cluster := start_cluster fat3\<rparr>), fat_sector_cache_flush fs2)
           }
         }))"

subsection \<open>open\<close>

definition fat_fs_check_p :: "fat_fs \<Rightarrow> bool" where
  "fat_fs_check_p fs = (bytes_per_cluster fs \<noteq> 0 \<and> bytes_per_sector fs \<noteq> 0)"

text \<open>\<^verbatim>\<open>fat_open\<close>.  A null result is \<open>Inl\<close>, with the \<^verbatim>\<open>errno\<close> the path sets, if
  any; \<^verbatim>\<open>malloc\<close> is taken to succeed.  The pathname is \<open>None\<close> for a null pointer.\<close>

definition fat_open ::
    "fcntl \<Rightarrow> fat_fs \<Rightarrow> cstring option \<Rightarrow> u32 \<Rightarrow> ((fat_errno option + fat) \<times> fat_fs) option" where
  "fat_open fl fs pathname md =
     (if \<not> fat_fs_check_p fs then Some (Inl (Some EFAULT), fs)
      else
        (case pathname of
           None \<Rightarrow> Some (Inl None, fs)
         | Some p \<Rightarrow>
             if p = [] then Some (Inl None, fs)
             else
               (let fat0 = \<lparr>mode = md, file_offset = 0, file_size = 0, start_cluster = 0,
                            cluster = 0, de_sector = 0, de_offset = 0\<rparr>
                in do {
                  (r, ff, fs1) \<leftarrow> fat_find fs fat0 pathname ff_init;
                  (case r of
                     Some fat1 \<Rightarrow>
                       if isdir ff then Some (Inl (Some EISDIR), fs1)
                       else
                         (let (fat2, fs2) =
                                (if md AND O_TRUNC fl \<noteq> 0
                                    \<and> (md AND O_RDWR fl \<noteq> 0 \<or> md AND O_WRONLY fl \<noteq> 0)
                                 then (fat1\<lparr>file_size := 0\<rparr>,
                                       fat_size_set fs1 (fat1\<lparr>file_size := 0\<rparr>) 0)
                                 else (fat1, fs1));
                              fat3 = fat2\<lparr>file_offset := 0\<rparr>;
                              fat4 = (if md AND O_APPEND fl \<noteq> 0
                                      then fat3\<lparr>file_offset := file_size fat3\<rparr> else fat3)
                          in Some (Inr fat4, fs2))
                   | None \<Rightarrow>
                       if md AND O_CREAT fl \<noteq> 0
                       then do {
                         (r1, fs2) \<leftarrow> fat_create fs1 fat0 p 0 ff;
                         (case r1 of
                            Some fat1 \<Rightarrow>
                              (let fat2 = fat1\<lparr>file_offset := 0\<rparr>;
                                   fat3 = (if md AND O_APPEND fl \<noteq> 0
                                           then fat2\<lparr>file_offset := file_size fat2\<rparr> else fat2)
                               in Some (Inr fat3, fs2))
                          | None \<Rightarrow> Some (Inl None, fs2))
                       }
                       else Some (Inl None, fs1))
                })))"

subsection \<open>write\<close>

text \<open>The loop of \<^verbatim>\<open>fat_write\<close>: \<open>buf\<close> is the caller's buffer, \<open>k\<close> the index
  \<^verbatim>\<open>data\<close> has reached in it.  Each round divides by \<^verbatim>\<open>bytes_per_sector\<close> and
  \<^verbatim>\<open>bytes_per_cluster\<close> before it does anything else.\<close>

definition fat_write_nbytes :: "fat \<Rightarrow> fat_fs \<Rightarrow> u16 \<Rightarrow> u16" where
  "fat_write_nbytes fat fs bytes_left =
     (let offset = (ucast (file_offset fat mod ucast (bytes_per_sector fs)) :: u16);
          nbytes = (if bytes_left < bytes_per_sector fs then bytes_left else bytes_per_sector fs)
      in if nbytes > bytes_per_sector fs - offset then bytes_per_sector fs - offset else nbytes)"

lemma unat_ucast_16_32: "unat (ucast (w :: u16) :: u32) = unat w"
proof -
  have "unat w < 2 ^ 16" using unsigned_less [of w, where 'a=nat] by simp
  then have "unat w < 2 ^ 32" by simp
  then show ?thesis by (simp add: unsigned_ucast_eq take_bit_nat_eq_self)
qed

lemma ucast_small: "unat (m :: u32) < 2 ^ 16 \<Longrightarrow> unat (ucast m :: u16) = unat m"
  by (simp add: unsigned_ucast_eq take_bit_nat_eq_self)

lemma fat_write_nbytes_bounds:
  assumes "bytes_left \<noteq> 0" and "bytes_per_sector fs \<noteq> 0"
  shows "0 < unat (fat_write_nbytes fat fs bytes_left)"
    and "unat (fat_write_nbytes fat fs bytes_left) \<le> unat bytes_left"
proof -
  define bps where "bps = bytes_per_sector fs"
  define m where "m = file_offset fat mod ucast bps"
  have bps0: "0 < unat bps" using assms(2) by (simp add: bps_def unat_gt_0)
  have "unat m = unat (file_offset fat) mod unat bps"
    by (simp add: m_def unat_mod unat_ucast_16_32)
  then have mlt: "unat m < unat bps" using bps0 by simp
  have "unat bps < 2 ^ 16" using unsigned_less [of bps, where 'a=nat] by simp
  then have um: "unat (ucast m :: u16) = unat m"
    using mlt by (simp add: ucast_small)
  have ule: "(ucast m :: u16) \<le> bps"
    using mlt um by (simp add: word_le_nat_alt)
  have sub: "unat (bps - ucast m) = unat bps - unat m"
    using ule um by (simp add: unat_sub)
  have bl0: "0 < unat bytes_left" using assms(1) by (simp add: unat_gt_0)
  show "0 < unat (fat_write_nbytes fat fs bytes_left)"
    using bps0 bl0 mlt sub
    by (auto simp: fat_write_nbytes_def Let_def bps_def [symmetric] m_def [symmetric])
  show "unat (fat_write_nbytes fat fs bytes_left) \<le> unat bytes_left"
    by (auto simp: fat_write_nbytes_def Let_def bps_def [symmetric] m_def [symmetric]
          word_less_nat_alt word_le_nat_alt)
qed

function fat_write_loop ::
    "fat \<Rightarrow> fat_fs \<Rightarrow> (nat \<Rightarrow> u8) \<Rightarrow> nat \<Rightarrow> u16 \<Rightarrow> (fat \<times> fat_fs \<times> u16) option" where
  "fat_write_loop fat fs buf k bytes_left =
     (if bytes_left = 0 then Some (fat, fs, bytes_left)
      else if bytes_per_sector fs = 0 \<or> bytes_per_cluster fs = 0 then None
      else
        (let offset = (ucast (file_offset fat mod ucast (bytes_per_sector fs)) :: u16);
             sec = fat_sector_calc fs (cluster fat)
                   + (file_offset fat mod ucast (bytes_per_cluster fs))
                       div ucast (bytes_per_sector fs);
             nbytes = fat_write_nbytes fat fs bytes_left;
             fs1 = snd (fat_dev_write fs sec offset (\<lambda>i. buf (k + i)) nbytes);
             fat1 = fat\<lparr>file_offset := file_offset fat + ucast nbytes\<rparr>
         in if file_offset fat1 mod ucast (bytes_per_cluster fs1) = 0
            then
              (case fat_clusters_allocate fs1 (cluster fat1) 1 of
                 None \<Rightarrow> None
               | Some (c, fs2) \<Rightarrow>
                   if c = 0 then Some (fat1\<lparr>cluster := c\<rparr>, fs2, bytes_left - nbytes)
                   else fat_write_loop (fat1\<lparr>cluster := c\<rparr>) fs2 buf (k + unat nbytes)
                          (bytes_left - nbytes))
            else fat_write_loop fat1 fs1 buf (k + unat nbytes) (bytes_left - nbytes)))"
  by pat_completeness auto
termination
proof (relation "measure (\<lambda>(fat, fs, buf, k, bytes_left). unat bytes_left)", goal_cases)
  case 1
  show ?case by simp
next
  case (2 fat fs buf k bytes_left)
  then have "bytes_left \<noteq> 0" and "bytes_per_sector fs \<noteq> 0" by simp_all
  from fat_write_nbytes_bounds [OF this, of fat]
  have "unat (bytes_left - fat_write_nbytes fat fs bytes_left) < unat bytes_left"
    by (simp add: unat_sub word_le_nat_alt)
  with 2 show ?case by simp
next
  case (3 fat fs buf k bytes_left)
  then have "bytes_left \<noteq> 0" and "bytes_per_sector fs \<noteq> 0" by simp_all
  from fat_write_nbytes_bounds [OF this, of fat]
  have "unat (bytes_left - fat_write_nbytes fat fs bytes_left) < unat bytes_left"
    by (simp add: unat_sub word_le_nat_alt)
  with 3 show ?case by simp
qed

declare fat_write_loop.simps [simp del]

text \<open>\<^verbatim>\<open>fat_write\<close>: \<open>len\<close> is the \<^verbatim>\<open>size_t\<close> argument, of which \<^verbatim>\<open>bytes_left\<close> keeps
  sixteen bits.  The result is \<open>Inl EINVAL\<close> for the return value -1, or the count
  \<^verbatim>\<open>len - bytes_left\<close>.\<close>

definition fat_write ::
    "fcntl \<Rightarrow> fat \<Rightarrow> fat_fs \<Rightarrow> (nat \<Rightarrow> u8) \<Rightarrow> nat \<Rightarrow> ((fat_errno + nat) \<times> fat \<times> fat_fs) option" where
  "fat_write fl fat fs buf len =
     (if \<not> (mode fat AND O_RDWR fl \<noteq> 0 \<or> mode fat AND O_WRONLY fl \<noteq> 0)
      then Some (Inl EINVAL, fat, fs)
      else do {
        (fat1, fs1, bytes_left) \<leftarrow> fat_write_loop fat fs buf 0 (of_nat len);
        let fat2 = fat1\<lparr>file_size := file_size fat1 + of_nat (len - unat bytes_left)\<rparr>;
        let fs2 = fat_size_set fs1 fat2 (file_size fat2);
        Some (Inr (len - unat bytes_left), fat2, fat_sector_cache_flush fs2)
      })"

subsection \<open>Freeing a chain, and unlink\<close>

text \<open>The loop of \<^verbatim>\<open>fat_cluster_chain_free\<close>, at the cluster \<open>c\<close>.\<close>

partial_function (option) fat_cluster_chain_free :: "fat_fs \<Rightarrow> u32 \<Rightarrow> fat_fs option" where
  "fat_cluster_chain_free fs c =
     (if \<not> fat_cluster_last_p c
      then do {
        (c1, fs1) \<leftarrow> fat_entry_get_check fs c;
        fs2 \<leftarrow> fat_entry_set fs1 c 0;
        fat_cluster_chain_free fs2 c1
      }
      else Some fs)"

declare fat_cluster_chain_free.simps [code]

text \<open>The inner loop of \<^verbatim>\<open>fat_unlink\<close>, which marks slots while they are
  long-filename slots, and the outer loop, which looks for the slot that the search
  recorded.  Both write \<^verbatim>\<open>de->name[0]\<close> into the buffer and do not mark it dirty.\<close>

partial_function (option) fat_unlink_mark ::
    "fat_fs \<Rightarrow> fat_de_iter \<Rightarrow> nat \<Rightarrow> (nat \<times> fat_de_iter \<times> fat_fs) option" where
  "fat_unlink_mark fs it de =
     (if fat_de_attr_long_filename_p (sector_buffer fs) de
      then do {
        (de1, it1, fs1) \<leftarrow>
          fat_de_next (fs\<lparr>sector_buffer := (sector_buffer fs)(de := SLOT_DELETED)\<rparr>) it;
        fat_unlink_mark fs1 it1 de1
      }
      else Some (de, it, fs))"

declare fat_unlink_mark.simps [code]

partial_function (option) fat_unlink_scan ::
    "fat_fs \<Rightarrow> fat_ff \<Rightarrow> fat_de_iter \<Rightarrow> nat \<Rightarrow> fat_fs option" where
  "fat_unlink_scan fs ff it de =
     (if fat_de_last_p (sector_buffer fs) de then Some fs
      else if ucast (it_offset it) = ff_de_offset ff \<and> it_sector it = ff_de_sector ff
      then do {
        (de1, it1, fs1) \<leftarrow> fat_unlink_mark fs it de;
        let fs2 = fs1\<lparr>sector_buffer := (sector_buffer fs1)(de1 := SLOT_DELETED)\<rparr>;
        Some (fat_sector_cache_flush fs2)
      }
      else do {
        (de1, it1, fs1) \<leftarrow> fat_de_next fs it;
        fat_unlink_scan fs1 ff it1 de1
      })"

declare fat_unlink_scan.simps [code]

text \<open>\<^verbatim>\<open>fat_unlink\<close>: \<open>Inl e\<close> is the return value -1 with \<^verbatim>\<open>errno\<close> set to \<open>e\<close>,
  \<open>Inr 0\<close> the return value 0.\<close>

definition fat_unlink :: "fat_fs \<Rightarrow> cstring option \<Rightarrow> ((fat_errno + int) \<times> fat_fs) option" where
  "fat_unlink fs pathname =
     do {
       (found, ff, fs1) \<leftarrow> fat_search fs pathname ff_init;
       if \<not> found then Some (Inl ENOENT, fs1)
       else if isdir ff then Some (Inl EISDIR, fs1)
       else do {
         fs2 \<leftarrow> fat_cluster_chain_free fs1 (ff_cluster ff);
         let (de, it, fs3) = fat_de_first fs2 (parent_dir_cluster ff);
         fs4 \<leftarrow> fat_unlink_scan fs3 ff it de;
         Some (Inr 0, fs4)
       }
     }"

subsection \<open>The logical contents of a volume\<close>

text \<open>The byte of device address \<open>a\<close> as the volume shows it: the cached copy when \<open>a\<close>
  lies in the cached sector, the device's byte otherwise.\<close>

definition fs_byte :: "fat_fs \<Rightarrow> u32 \<Rightarrow> u8" where
  "fs_byte fs a =
     (if a - sector fs * ucast (bytes_per_sector fs) < ucast (bytes_per_sector fs)
      then sector_buffer fs (unat (a - sector fs * ucast (bytes_per_sector fs)))
      else dev_mem fs a)"

text \<open>The cache agrees with the device unless it is dirty.\<close>

definition cache_valid :: "fat_fs \<Rightarrow> bool" where
  "cache_valid fs =
     (dirty fs \<or>
      (\<forall>i \<in> set [0..<unat (bytes_per_sector fs)].
         sector_buffer fs i = dev_mem fs (sector fs * ucast (bytes_per_sector fs) + of_nat i)))"

text \<open>The FAT entry of cluster \<open>c\<close>, read from the logical contents the way
  \<^verbatim>\<open>fat_entry_get\<close> reads it from the cached sector: its byte address and sector, the
  value \<^verbatim>\<open>cluster_new\<close>, and the value returned.\<close>

definition fat_entry_addr :: "fat_fs \<Rightarrow> u32 \<Rightarrow> u32" where
  "fat_entry_addr fs c =
     first_fat_sector fs * ucast (bytes_per_sector fs)
     + (if isFAT32 fs \<noteq> 0 then push_bit 2 c else push_bit 1 c)"

definition fat_raw :: "fat_fs \<Rightarrow> u32 \<Rightarrow> u32" where
  "fat_raw fs c =
     (let a = fat_entry_addr fs c
      in if isFAT32 fs \<noteq> 0
         then conv_ulong (fs_byte fs a) (fs_byte fs (a + 1)) (fs_byte fs (a + 2)) (fs_byte fs (a + 3))
         else conv_ulong (fs_byte fs a) (fs_byte fs (a + 1))
                (ucast (conv_init fs)) (ucast (drop_bit 8 (conv_init fs))))"

definition fat_interpret :: "fat_fs \<Rightarrow> u32 \<Rightarrow> u32" where
  "fat_interpret fs raw =
     (let mask = (if isFAT32 fs \<noteq> 0 then FAT32_MASK else FAT16_MASK)
      in if raw \<ge> (CLUST_EOFS AND mask) then CLUST_EOFS else raw AND mask)"

definition fat_value :: "fat_fs \<Rightarrow> u32 \<Rightarrow> u32" where
  "fat_value fs c = fat_interpret fs (fat_raw fs c)"

text \<open>A volume on which the sector arithmetic of the source is defined: a sector size
  that is not zero, a multiple of four, and no more than the cache buffer holds.\<close>

definition vol_ok :: "fat_fs \<Rightarrow> bool" where
  "vol_ok fs =
     (bytes_per_sector fs \<noteq> 0 \<and> 4 dvd unat (bytes_per_sector fs)
      \<and> unat (bytes_per_sector fs) \<le> FAT_SECTOR_SIZE \<and> cache_valid fs)"

definition fat_entry_sector :: "fat_fs \<Rightarrow> u32 \<Rightarrow> u32" where
  "fat_entry_sector fs c =
     first_fat_sector fs
     + (if isFAT32 fs \<noteq> 0 then push_bit 2 c else push_bit 1 c) div ucast (bytes_per_sector fs)"

text \<open>The byte addresses of the FAT entry of cluster \<open>c\<close>, four for FAT32 and two
  for FAT16, and the entry being clear: each of its bytes reads zero.\<close>

definition fat_entry_addrs :: "fat_fs \<Rightarrow> u32 \<Rightarrow> u32 list" where
  "fat_entry_addrs fs c =
     (let a = fat_entry_addr fs c
      in if isFAT32 fs \<noteq> 0 then [a, a + 1, a + 2, a + 3] else [a, a + 1])"

definition fat_entry_clear :: "fat_fs \<Rightarrow> u32 \<Rightarrow> bool" where
  "fat_entry_clear fs c = (\<forall>a \<in> set (fat_entry_addrs fs c). fs_byte fs a = 0)"

text \<open>
  Modelled from the spec: the FAT entry of cluster \<open>c\<close> as the spec reads it.
  \<open>fat_entry_disk\<close> is the entry as it is stored, four bytes for FAT32 and two for
  FAT16; \<open>fat_entry_spec\<close> masks it with \<open>0x0FFFFFFF\<close> or \<open>0x0000FFFF\<close> first and then
  interprets it: a masked value in the end-of-chain range is the end-of-chain
  sentinel, any other is the masked value itself.
\<close>

definition fat_entry_disk :: "fat_fs \<Rightarrow> u32 \<Rightarrow> u32" where
  "fat_entry_disk fs c =
     (let a = fat_entry_addr fs c
      in if isFAT32 fs \<noteq> 0
         then conv_ulong (fs_byte fs a) (fs_byte fs (a + 1)) (fs_byte fs (a + 2)) (fs_byte fs (a + 3))
         else conv_ulong (fs_byte fs a) (fs_byte fs (a + 1)) 0 0)"

definition fat_entry_spec :: "fat_fs \<Rightarrow> u32 \<Rightarrow> u32" where
  "fat_entry_spec fs c =
     (let mask = (if isFAT32 fs \<noteq> 0 then FAT32_MASK else FAT16_MASK);
          masked = fat_entry_disk fs c AND mask
      in if masked \<ge> (CLUST_EOFS AND mask) then CLUST_EOFS else masked)"

text \<open>A legal data cluster number: from \<open>CLUST_FIRST\<close> up to the end-of-chain range
  of the FAT type.  \<open>read_chain\<close> is the list of clusters that
  \<^verbatim>\<open>fat_cluster_chain_free\<close> goes through from \<open>c\<close>: the links are the values that
  \<^verbatim>\<open>fat_entry_get\<close> returns.\<close>

definition legal_cluster :: "fat_fs \<Rightarrow> u32 \<Rightarrow> bool" where
  "legal_cluster fs c =
     (CLUST_FIRST \<le> c
      \<and> c < (CLUST_EOFS AND (if isFAT32 fs \<noteq> 0 then FAT32_MASK else FAT16_MASK)))"

fun read_chain :: "fat_fs \<Rightarrow> u32 \<Rightarrow> u32 list \<Rightarrow> bool" where
  "read_chain fs c [] = fat_cluster_last_p c"
| "read_chain fs c (x # xs) =
     (x = c \<and> legal_cluster fs c \<and> \<not> fat_cluster_free_p (fat_value fs c)
      \<and> read_chain fs (fat_value fs c) xs)"

text \<open>
  Modelled from the spec: a well-formed chain from \<open>c\<close> is the list of its clusters.
  Each is \<open>c\<close> or the entry of the one before, is a legal data cluster and has an
  entry that is not free, and the entry of the last one is an end of chain.  The
  entries are read as the spec reads them, masked first.
\<close>

fun is_chain :: "fat_fs \<Rightarrow> u32 \<Rightarrow> u32 list \<Rightarrow> bool" where
  "is_chain fs c [] = fat_cluster_last_p c"
| "is_chain fs c (x # xs) =
     (x = c \<and> legal_cluster fs c \<and> \<not> fat_cluster_free_p (fat_entry_spec fs c)
      \<and> is_chain fs (fat_entry_spec fs c) xs)"

text \<open>The clusters \<^verbatim>\<open>fat_stats\<close> examines from \<open>c\<close> on, and those of them for
  which \<^verbatim>\<open>fat_entry_get\<close> returns a value that is not free.\<close>

definition examined :: "fat_fs \<Rightarrow> u32 \<Rightarrow> u32 list" where
  "examined fs c = map of_nat [unat c..<unat (num_clusters fs)]"

definition used_clusters :: "fat_fs \<Rightarrow> u32 \<Rightarrow> u32 list" where
  "used_clusters fs c = filter (\<lambda>x. \<not> fat_cluster_free_p (fat_value fs x)) (examined fs c)"


text \<open>What the FAT accesses, the allocation and the lookup keep of a volume: it stays
  well-formed, with the same layout constants.\<close>

definition keeps :: "fat_fs \<Rightarrow> fat_fs \<Rightarrow> bool" where
  "keeps fs fs1 = (vol_ok fs1 \<and> geometry fs1 = geometry fs)"

text \<open>The byte address of the directory slot at the offset \<open>off\<close> of the sector \<open>sec\<close>, and
  the addresses of its field \<^verbatim>\<open>file_size\<close>.\<close>

definition de_addr :: "fat_fs \<Rightarrow> u32 \<Rightarrow> u32 \<Rightarrow> u32" where
  "de_addr fs sec off = sec * ucast (bytes_per_sector fs) + off"

definition size_field_addrs :: "fat_fs \<Rightarrow> u32 \<Rightarrow> u32 \<Rightarrow> u32 list" where
  "size_field_addrs fs sec off =
     (let a = de_addr fs sec off in [a + 28, a + 29, a + 30, a + 31])"

text \<open>Pathnames with an empty component: two slashes in a row, or a slash at the
  start.  For a null pathname, an empty one and one that starts with a slash the lookup
  ends before it reads a directory.\<close>

fun double_slash :: "cstring \<Rightarrow> bool" where
  "double_slash (a # b # cs) = ((a = 0x2f \<and> b = 0x2f) \<or> double_slash (b # cs))"
| "double_slash [a] = False"
| "double_slash [] = False"

definition empty_component :: "cstring \<Rightarrow> bool" where
  "empty_component p = ((p \<noteq> [] \<and> hd p = 0x2f) \<or> double_slash p)"

definition immediate_pathname :: "cstring option \<Rightarrow> bool" where
  "immediate_pathname pathname =
     (case pathname of None \<Rightarrow> True | Some p \<Rightarrow> p = [] \<or> hd p = 0x2f)"

definition bad_pathname :: "cstring option \<Rightarrow> bool" where
  "bad_pathname pathname =
     (case pathname of None \<Rightarrow> True | Some p \<Rightarrow> p = [] \<or> empty_component p)"

text \<open>The directory iterator on the logical contents.  \<open>de_next_iter\<close> is the iterator
  that \<^verbatim>\<open>fat_de_next\<close> moves to, as long as the directory need not be extended: at the
  end of a chunk the entry of the current cluster must name a next cluster.
  \<open>de_iter_addr\<close> is the byte address of the slot the iterator is at.\<close>

definition de_next_iter :: "fat_fs \<Rightarrow> fat_de_iter \<Rightarrow> fat_de_iter option" where
  "de_next_iter fs it =
     (let it1 = it\<lparr>it_offset := it_offset it + 32\<rparr>
      in if it_offset it1 \<ge> bytes_per_sector fs
         then
           (let it2 = it1\<lparr>it_offset := 0, it_sector := it_sector it1 + 1\<rparr>
            in if it_sector it2 \<ge> ucast (it_sectors it2)
               then
                 (let v = fat_value fs (it_cluster it2)
                  in if fat_cluster_free_p v \<or> fat_cluster_last_p v then None
                     else Some (it2\<lparr>it_cluster := v, it_sector := fat_sector_calc fs v\<rparr>))
               else Some it2)
         else Some it1)"

definition de_iter_addr :: "fat_fs \<Rightarrow> fat_de_iter \<Rightarrow> u32" where
  "de_iter_addr fs it = de_addr fs (it_sector it) (ucast (it_offset it))"

text \<open>The scan of \<^verbatim>\<open>fat_unlink\<close> finds the slot that the search recorded in \<open>ff\<close>:
  it is the slot the iterator reaches after \<open>n\<close> steps from \<open>it\<close>, without extending
  the directory; it lies within its sector and is not a long-filename slot.  The
  addresses \<open>fr\<close> are bytes that may have changed since: the first byte and the
  attribute of that slot are not among them, nor are the FAT entries of the
  directory's clusters on the way.\<close>

fun scan_finds :: "fat_fs \<Rightarrow> u32 list \<Rightarrow> fat_ff \<Rightarrow> fat_de_iter \<Rightarrow> nat \<Rightarrow> bool" where
  "scan_finds fs fr ff it 0 =
     (ucast (it_offset it) = ff_de_offset ff \<and> it_sector it = ff_de_sector ff
      \<and> unat (it_offset it) + 32 \<le> unat (bytes_per_sector fs)
      \<and> de_iter_addr fs it \<notin> set fr \<and> de_iter_addr fs it + 11 \<notin> set fr
      \<and> fs_byte fs (de_iter_addr fs it + 11) AND ATTR_LONG_FILENAME \<noteq> ATTR_LONG_FILENAME)"
| "scan_finds fs fr ff it (Suc n) =
     (\<not> (ucast (it_offset it) = ff_de_offset ff \<and> it_sector it = ff_de_sector ff)
      \<and> (\<forall>a \<in> set (fat_entry_addrs fs (it_cluster it)). a \<notin> set fr)
      \<and> (case de_next_iter fs it of
            None \<Rightarrow> False
          | Some it' \<Rightarrow> scan_finds fs fr ff it' n))"

text \<open>The bytes of the FAT entries of the clusters \<open>cs\<close>; and the scan of \<^verbatim>\<open>fat_unlink\<close>
  finding the slot of \<open>ff\<close> in \<open>n\<close> steps from the start of its parent directory, when
  the entries of \<open>cs\<close> are the bytes that have changed.\<close>

definition chain_addrs :: "fat_fs \<Rightarrow> u32 list \<Rightarrow> u32 list" where
  "chain_addrs fs cs = concat (map (fat_entry_addrs fs) cs)"

definition unlink_reaches :: "fat_fs \<Rightarrow> fat_ff \<Rightarrow> u32 list \<Rightarrow> nat \<Rightarrow> bool" where
  "unlink_reaches fs ff cs n =
     scan_finds fs (chain_addrs fs cs) ff
       (fst (snd (fat_de_first fs (parent_dir_cluster ff)))) n"

subsection \<open>Counting device transfers\<close>

definition dev_reads :: "fat_fs \<Rightarrow> nat" where
  "dev_reads fs =
     length (filter (\<lambda>e. case e of DevRead a n \<Rightarrow> True | DevWrite a n \<Rightarrow> False) (dev_log fs))"

definition dev_writes :: "fat_fs \<Rightarrow> nat" where
  "dev_writes fs =
     length (filter (\<lambda>e. case e of DevRead a n \<Rightarrow> False | DevWrite a n \<Rightarrow> True) (dev_log fs))"

subsection \<open>A small volume\<close>

text \<open>A FAT32 volume with 512-byte sectors and one sector per cluster, used to run
  the functions.  The partition starts at sector 1, the FAT is sector 2, and cluster 2
  (sector 3) is the root directory.  The root directory holds the file
  \<^verbatim>\<open>Note.txt\<close>, recorded as one long-filename slot followed by the short slot
  \<^verbatim>\<open>NOTE.TXT\<close> (600 bytes, clusters 3 and 4), and the directory \<^verbatim>\<open>A\<close>
  (cluster 5).  The cache holds sector 1, clean, as it does after the mount; the bytes
  of sectors 0 and 1, which none of the functions here reads, are left zero.\<close>

definition vol_fat :: "u8 list" where
  "vol_fat = [0xf8, 0xff, 0xff, 0x0f,  0xff, 0xff, 0xff, 0x0f,  0xff, 0xff, 0xff, 0x0f,
              0x04, 0x00, 0x00, 0x00,  0xff, 0xff, 0xff, 0x0f,  0xff, 0xff, 0xff, 0x0f]"

definition vol_root :: "u8 list" where
  "vol_root =
     [0x41, 0x4e, 0x00, 0x6f, 0x00, 0x74, 0x00, 0x65, 0x00, 0x2e, 0x00, 0x0f, 0x00, 0x27,
      0x74, 0x00, 0x78, 0x00, 0x74, 0x00, 0x00, 0x00, 0xff, 0xff, 0xff, 0xff, 0x00, 0x00,
      0xff, 0xff, 0xff, 0xff,
      0x4e, 0x4f, 0x54, 0x45, 0x20, 0x20, 0x20, 0x20, 0x54, 0x58, 0x54, 0x20, 0x00, 0x00,
      0x00, 0x00, 0x20, 0x00, 0x20, 0x00, 0x00, 0x00, 0x00, 0x00, 0x20, 0x00, 0x03, 0x00,
      0x58, 0x02, 0x00, 0x00,
      0x41, 0x20, 0x20, 0x20, 0x20, 0x20, 0x20, 0x20, 0x20, 0x20, 0x20, 0x10, 0x00, 0x00,
      0x00, 0x00, 0x20, 0x00, 0x20, 0x00, 0x00, 0x00, 0x00, 0x00, 0x20, 0x00, 0x05, 0x00,
      0x00, 0x00, 0x00, 0x00]"

definition vol_mem :: "u32 \<Rightarrow> u8" where
  "vol_mem a =
     (if 1024 \<le> a \<and> a < 1048 then vol_fat ! unat (a - 1024)
      else if 1536 \<le> a \<and> a < 1632 then vol_root ! unat (a - 1536)
      else 0)"

definition vol :: fat_fs where
  "vol = \<lparr>dev_mem = vol_mem, dev_log = [], conv_init = 0, isFAT32 = 1,
           sectors_per_cluster = 1, first_data_sector = 3, first_fat_sector = 2,
           first_dir_sector = 2, root_dir_cluster = 2, root_dir_sectors = 0,
           num_clusters = 8, num_fat_sectors = 1, bytes_per_sector = 512,
           bytes_per_cluster = 512, sector = 1,
           sector_buffer = (\<lambda>i. vol_mem (512 + of_nat i)), dirty = False\<rparr>"

text \<open>The open flags as newlib's \<^verbatim>\<open>sys/fcntl.h\<close> gives them, and the pathname
  \<^verbatim>\<open>note.txt\<close>.\<close>

definition newlib_fcntl :: fcntl where
  "newlib_fcntl = \<lparr>O_WRONLY = 0x0001, O_RDWR = 0x0002, O_APPEND = 0x0008,
                    O_CREAT = 0x0200, O_TRUNC = 0x0400\<rparr>"

definition note_txt :: cstring where
  "note_txt = [0x6e, 0x6f, 0x74, 0x65, 0x2e, 0x74, 0x78, 0x74]"

text \<open>The same volume with the reserved top bits set in the FAT entry of cluster 6,
  whose raw value is \<open>0x10000007\<close>.\<close>

definition vol_reserved :: fat_fs where
  "vol_reserved =
     vol\<lparr>dev_mem := (\<lambda>a. if a = 1048 then 0x07 else if a = 1051 then 0x10 else vol_mem a)\<rparr>"

text \<open>The same volume with reserved top bits set in the entry of cluster 3, stored as
  \<open>0x10000004\<close>: the chain of \<^verbatim>\<open>note.txt\<close> is still the clusters 3 and 4.  And with
  the entry of the free cluster 6 stored as \<open>0xF0000000\<close>, which is free once masked.\<close>

definition vol_chain_reserved :: fat_fs where
  "vol_chain_reserved = vol\<lparr>dev_mem := (\<lambda>a. if a = 1039 then 0x10 else vol_mem a)\<rparr>"

definition vol_free_reserved :: fat_fs where
  "vol_free_reserved = vol\<lparr>dev_mem := (\<lambda>a. if a = 1051 then 0xf0 else vol_mem a)\<rparr>"

text \<open>The small volume with the root directory sector in the cache, modified and not
  yet written back: every byte of the buffer is \<open>0x55\<close>.\<close>

definition vol_dirty :: fat_fs where
  "vol_dirty = vol\<lparr>sector := 3, sector_buffer := (\<lambda>i. 0x55), dirty := True\<rparr>"

text \<open>The handle that \<^verbatim>\<open>fat_open\<close> returns for \<^verbatim>\<open>note.txt\<close> on the small volume,
  for the mode \<open>md\<close>.\<close>

definition note_handle :: "u32 \<Rightarrow> fat" where
  "note_handle md = \<lparr>mode = md, file_offset = 0, file_size = 600, start_cluster = 3,
                      cluster = 3, de_sector = 3, de_offset = 32\<rparr>"

section \<open>The sector cache (C8)\<close>

lemma cache_read_hit:
  "sec = sector fs \<Longrightarrow> fat_sector_cache_read fs sec = (bytes_per_sector fs, fs)"
  by (simp add: fat_sector_cache_read_def)

lemma cache_read_sector [simp]: "sector (snd (fat_sector_cache_read fs sec)) = sec"
  by (simp add: fat_sector_cache_read_def fat_sector_cache_flush_def fat_dev_read_def
        fat_dev_write_def Let_def)

lemma cache_read_reads: "dev_reads (snd (fat_sector_cache_read fs sec)) \<le> dev_reads fs + 1"
  by (simp add: dev_reads_def fat_sector_cache_read_def fat_sector_cache_flush_def
        fat_dev_read_def fat_dev_write_def Let_def)

lemma cache_read_miss_log:
  "sec \<noteq> sector fs \<Longrightarrow>
   dev_log (snd (fat_sector_cache_read fs sec)) =
     dev_log fs
     @ (if dirty fs
        then [DevWrite (sector fs * ucast (bytes_per_sector fs)) (bytes_per_sector fs)] else [])
     @ [DevRead (sec * ucast (bytes_per_sector fs)) (bytes_per_sector fs)]"
  by (simp add: fat_sector_cache_read_def fat_sector_cache_flush_def fat_dev_read_def
        fat_dev_write_def Let_def)

lemma cache_read_miss_buffer:
  "sec \<noteq> sector fs \<Longrightarrow> i < unat (bytes_per_sector fs) \<Longrightarrow>
   sector_buffer (snd (fat_sector_cache_read fs sec)) i =
     dev_mem (fat_sector_cache_flush fs) (sec * ucast (bytes_per_sector fs) + of_nat i)"
  by (simp add: fat_sector_cache_read_def fat_sector_cache_flush_def fat_dev_read_def
        fat_dev_write_def Let_def)

lemma cache_read_miss_mem:
  "sec \<noteq> sector fs \<Longrightarrow>
   dev_mem (snd (fat_sector_cache_read fs sec)) = dev_mem (fat_sector_cache_flush fs) \<and>
   \<not> dirty (snd (fat_sector_cache_read fs sec))"
  by (simp add: fat_sector_cache_read_def fat_sector_cache_flush_def fat_dev_read_def
        fat_dev_write_def Let_def)

lemma cache_read_miss_flush:
  "sec \<noteq> sector fs \<Longrightarrow>
   dev_mem (snd (fat_sector_cache_read fs sec)) a =
     (if dirty fs \<and> a - sector fs * ucast (bytes_per_sector fs) < ucast (bytes_per_sector fs)
      then sector_buffer fs (unat (a - sector fs * ucast (bytes_per_sector fs)))
      else dev_mem fs a)"
  by (simp add: fat_sector_cache_read_def fat_sector_cache_flush_def fat_dev_read_def
        fat_dev_write_def Let_def)

lemma cache_read_miss_loaded:
  "sec \<noteq> sector fs \<Longrightarrow> i < unat (bytes_per_sector fs) \<Longrightarrow>
   sector_buffer (snd (fat_sector_cache_read fs sec)) i =
     dev_mem (snd (fat_sector_cache_read fs sec)) (sec * ucast (bytes_per_sector fs) + of_nat i)"
  by (simp add: fat_sector_cache_read_def fat_sector_cache_flush_def fat_dev_read_def
        fat_dev_write_def Let_def)

lemma cache_read_miss_rest:
  "sec \<noteq> sector fs \<Longrightarrow> \<not> i < unat (bytes_per_sector fs) \<Longrightarrow>
   sector_buffer (snd (fat_sector_cache_read fs sec)) i = sector_buffer fs i"
  by (simp add: fat_sector_cache_read_def fat_sector_cache_flush_def fat_dev_read_def
        fat_dev_write_def Let_def)

text \<open>
  C8.  A cache read of the sector that is already cached returns the volume as it is, so
  it makes no device transfer and leaves the cache unchanged.  On a volume whose
  sector fits the buffer of \<open>FAT_SECTOR_SIZE\<close> bytes: two cache reads of one sector
  in a row add at most one device read, and a cache read after a cache write of the
  same sector adds none.  A cache read of another sector first flushes: if the buffer
  is dirty, the device log gains the write of the old sector and every byte of the
  old sector on the device becomes the byte of the buffer, all other bytes of the
  device staying as they were; if it is clean nothing is written.  Then the new
  sector is read: the log gains that read, the buffer holds the bytes the device
  then has at the new sector, and the cache is clean.
\<close>

theorem cache_read_same_sector_no_io:
  "(sec = sector fs \<longrightarrow> fat_sector_cache_read fs sec = (bytes_per_sector fs, fs)) \<and>
   (unat (bytes_per_sector fs) \<le> FAT_SECTOR_SIZE \<longrightarrow>
      dev_reads (snd (fat_sector_cache_read (snd (fat_sector_cache_read fs sec)) sec))
        \<le> dev_reads fs + 1 \<and>
      dev_reads (snd (fat_sector_cache_read (snd (fat_sector_cache_write fs sec)) sec))
        = dev_reads fs \<and>
      (sec \<noteq> sector fs \<longrightarrow>
         dev_log (snd (fat_sector_cache_read fs sec)) =
           dev_log fs
           @ (if dirty fs
              then [DevWrite (sector fs * ucast (bytes_per_sector fs)) (bytes_per_sector fs)]
              else [])
           @ [DevRead (sec * ucast (bytes_per_sector fs)) (bytes_per_sector fs)] \<and>
         (\<forall>a. dev_mem (snd (fat_sector_cache_read fs sec)) a =
                (if dirty fs
                    \<and> a - sector fs * ucast (bytes_per_sector fs) < ucast (bytes_per_sector fs)
                 then sector_buffer fs (unat (a - sector fs * ucast (bytes_per_sector fs)))
                 else dev_mem fs a)) \<and>
         \<not> dirty (snd (fat_sector_cache_read fs sec)) \<and>
         sector (snd (fat_sector_cache_read fs sec)) = sec \<and>
         (\<forall>i. sector_buffer (snd (fat_sector_cache_read fs sec)) i =
                (if i < unat (bytes_per_sector fs)
                 then dev_mem (snd (fat_sector_cache_read fs sec))
                        (sec * ucast (bytes_per_sector fs) + of_nat i)
                 else sector_buffer fs i))))"
proof -
  have two: "dev_reads (snd (fat_sector_cache_read (snd (fat_sector_cache_read fs sec)) sec))
               \<le> dev_reads fs + 1"
    using cache_read_reads [of fs sec] by (simp add: cache_read_hit)
  have wr: "dev_reads (snd (fat_sector_cache_read (snd (fat_sector_cache_write fs sec)) sec))
              = dev_reads fs"
    by (simp add: fat_sector_cache_write_def fat_sector_cache_read_def dev_reads_def Let_def)
  have nd: "sec \<noteq> sector fs \<Longrightarrow> \<not> dirty (snd (fat_sector_cache_read fs sec))"
    by (simp add: cache_read_miss_mem)
  show ?thesis
    using two wr nd
    by (simp add: cache_read_hit cache_read_miss_log cache_read_miss_flush
          cache_read_miss_loaded cache_read_miss_rest)
qed

text \<open>The theorem at the small volume with sector 3 cached and dirty: a read of
  sector 3 changes nothing; a read of sector 2 writes the buffer to sector 3 (byte
  addresses 1536 to 2047, which held \<open>0x41\<close> at 1536), touches no byte beyond it, and
  loads sector 2 (byte address 1024).\<close>

theorem cache_read_same_sector_no_io_witness:
  "fat_sector_cache_read vol_dirty 3 = (512, vol_dirty) \<and>
   dev_log (snd (fat_sector_cache_read vol_dirty 2)) = [DevWrite 1536 512, DevRead 1024 512] \<and>
   dev_mem vol_dirty 1536 = 0x41 \<and>
   dev_mem (snd (fat_sector_cache_read vol_dirty 2)) 1536 = 0x55 \<and>
   dev_mem (snd (fat_sector_cache_read vol_dirty 2)) 2047 = 0x55 \<and>
   dev_mem (snd (fat_sector_cache_read vol_dirty 2)) 2048 = 0 \<and>
   dev_mem (snd (fat_sector_cache_read vol_dirty 2)) 1024 = 0xf8 \<and>
   sector_buffer (snd (fat_sector_cache_read vol_dirty 2)) 0 = 0xf8 \<and>
   \<not> dirty (snd (fat_sector_cache_read vol_dirty 2))"
proof -
  have b: "unat (bytes_per_sector vol_dirty) \<le> FAT_SECTOR_SIZE"
    by (simp add: vol_dirty_def vol_def FAT_SECTOR_SIZE_def)
  note h = cache_read_same_sector_no_io [of 3 vol_dirty]
  note m = cache_read_same_sector_no_io [of 2 vol_dirty]
  have s: "sector vol_dirty = 3" "(2 :: u32) \<noteq> sector vol_dirty" "dirty vol_dirty"
    "bytes_per_sector vol_dirty = 512" "dev_log vol_dirty = []"
    "sector_buffer vol_dirty = (\<lambda>i. 0x55)" "dev_mem vol_dirty = vol_mem"
    by (simp_all add: vol_dirty_def vol_def)
  have hit: "fat_sector_cache_read vol_dirty 3 = (512, vol_dirty)"
    using h s by simp
  have miss: "dev_log (snd (fat_sector_cache_read vol_dirty 2))
                = [DevWrite 1536 512, DevRead 1024 512]"
    and mem: "\<And>a. dev_mem (snd (fat_sector_cache_read vol_dirty 2)) a
                = (if a - 1536 < 512 then 0x55 else vol_mem a)"
    and nd: "\<not> dirty (snd (fat_sector_cache_read vol_dirty 2))"
    and buf: "\<And>i. i < 512 \<Longrightarrow> sector_buffer (snd (fat_sector_cache_read vol_dirty 2)) i
                = dev_mem (snd (fat_sector_cache_read vol_dirty 2)) (1024 + of_nat i)"
    using m b s by simp_all
  have v: "vol_mem 1536 = 0x41" "vol_mem 2048 = 0" "vol_mem 1024 = 0xf8"
    by (simp_all add: vol_mem_def vol_root_def vol_fat_def)
  show ?thesis
    using hit miss nd buf [of 0] v by (simp add: mem s)
qed

section \<open>Reading the FAT through the cache\<close>

lemma unat_of_nat_u16_bound:
  "i < unat (b :: u16) \<Longrightarrow> unat (of_nat i :: u32) = i"
proof -
  assume "i < unat b"
  moreover have "unat b < 2 ^ 16" using unsigned_less [of b, where 'a=nat] by simp
  ultimately have "i < 2 ^ 32" by simp
  then show ?thesis by (simp add: unat_of_nat take_bit_nat_eq_self)
qed

lemma of_nat_less_ucast:
  assumes "i < unat (b :: u16)"
  shows "(of_nat i :: u32) < ucast b"
  using assms by (simp add: word_less_nat_alt unat_of_nat_u16_bound unat_ucast_16_32)

lemma less_ucast_unat:
  "(w :: u32) < ucast (b :: u16) \<longleftrightarrow> unat w < unat b"
  by (simp add: word_less_nat_alt unat_ucast_16_32)

lemma fs_byte_flush [simp]: "fs_byte (fat_sector_cache_flush fs) = fs_byte fs"
  by (rule ext) (simp add: fs_byte_def fat_sector_cache_flush_def fat_dev_write_def Let_def)

lemma cache_valid_flush [simp]:
  "cache_valid fs \<Longrightarrow> cache_valid (fat_sector_cache_flush fs)"
  by (auto simp: cache_valid_def fat_sector_cache_flush_def fat_dev_write_def Let_def
        unat_of_nat_u16_bound of_nat_less_ucast)

lemma flush_clean [simp]: "\<not> dirty (fat_sector_cache_flush fs)"
  by (simp add: fat_sector_cache_flush_def fat_dev_write_def Let_def)

lemma clean_valid_byte:
  assumes "cache_valid fs" and "\<not> dirty fs"
  shows "fs_byte fs a = dev_mem fs a"
proof (cases "a - sector fs * ucast (bytes_per_sector fs) < ucast (bytes_per_sector fs)")
  case True
  then have "sector_buffer fs (unat (a - sector fs * ucast (bytes_per_sector fs)))
      = dev_mem fs (sector fs * ucast (bytes_per_sector fs)
                    + of_nat (unat (a - sector fs * ucast (bytes_per_sector fs))))"
    using assms by (simp add: cache_valid_def less_ucast_unat)
  then show ?thesis using True by (simp add: fs_byte_def)
next
  case False
  then show ?thesis by (simp add: fs_byte_def)
qed

lemma fs_byte_cache_read [simp]:
  assumes "cache_valid fs"
  shows "fs_byte (snd (fat_sector_cache_read fs sec)) = fs_byte fs"
proof (cases "sec = sector fs")
  case True
  then show ?thesis by (simp add: cache_read_hit)
next
  case False
  let ?f = "fat_sector_cache_flush fs"
  have v: "cache_valid ?f" and c: "\<not> dirty ?f" using assms by simp_all
  have "fs_byte (snd (fat_sector_cache_read fs sec)) a = dev_mem ?f a" for a
    using False
    by (simp add: fs_byte_def fat_sector_cache_read_def fat_dev_read_def Let_def less_ucast_unat)
  moreover have "fs_byte ?f a = dev_mem ?f a" for a
    using v c by (rule clean_valid_byte)
  ultimately show ?thesis by (simp add: fun_eq_iff)
qed

lemma cache_valid_cache_read [simp]:
  assumes "cache_valid fs"
  shows "cache_valid (snd (fat_sector_cache_read fs sec))"
proof (cases "sec = sector fs")
  case True
  then show ?thesis using assms by (simp add: cache_read_hit)
next
  case False
  then show ?thesis
    by (simp add: cache_valid_def fat_sector_cache_read_def fat_dev_read_def Let_def)
qed


lemma buffer_is_byte:
  assumes "i < unat (bytes_per_sector fs)"
  shows "sector_buffer fs i = fs_byte fs (sector fs * ucast (bytes_per_sector fs) + of_nat i)"
  using assms by (simp add: fs_byte_def unat_of_nat_u16_bound of_nat_less_ucast)

lemma entry_sector_addr:
  "(f + off div b) * b + (off mod b) = f * b + (off :: u32)"
proof -
  have "(f + off div b) * b + off mod b = f * b + (off div b * b + off mod b)"
    by (simp add: algebra_simps)
  then show ?thesis by (simp only: div_mult_mod_eq)
qed

lemma mod4_room:
  assumes "4 dvd (b::nat)" and "4 dvd x" and "0 < b"
  shows "x mod b + 3 < b"
proof -
  have "4 dvd x mod b" using assms by (simp add: dvd_mod)
  moreover have "x mod b < b" using assms by simp
  ultimately show ?thesis using assms(1) by (elim dvdE) auto
qed

lemma dvd4_unat_push_bit_2: "4 dvd unat (push_bit 2 (c :: u32))"
proof -
  have "unat (push_bit 2 c) = (4 * unat c) mod 2 ^ 32"
    by (simp add: push_bit_eq_mult unat_word_ariths mult.commute)
  moreover have "(4::nat) dvd 2 ^ 32" by simp
  ultimately show ?thesis by (simp add: dvd_mod)
qed

lemma dvd2_unat_push_bit_1: "2 dvd unat (push_bit 1 (c :: u32))"
proof -
  have "unat (push_bit 1 c) = (2 * unat c) mod 2 ^ 32"
    by (simp add: push_bit_eq_mult unat_word_ariths mult.commute)
  moreover have "(2::nat) dvd 2 ^ 32" by simp
  ultimately show ?thesis by (simp add: dvd_mod)
qed

lemma entry_offset_room32:
  assumes "4 dvd unat (b :: u16)" and "b \<noteq> 0"
  shows "unat (push_bit 2 (c::u32) mod ucast b) + 3 < unat b"
proof -
  have "unat (push_bit 2 c mod ucast b) = unat (push_bit 2 c) mod unat b"
    by (simp add: unat_mod unat_ucast_16_32)
  moreover have "0 < unat b" using assms(2) by (simp add: unat_gt_0)
  ultimately show ?thesis
    using mod4_room [OF assms(1) dvd4_unat_push_bit_2 [of c]] by simp
qed

lemma entry_offset_room16:
  assumes "4 dvd unat (b :: u16)" and "b \<noteq> 0"
  shows "unat (push_bit 1 (c::u32) mod ucast b) + 1 < unat b"
proof -
  have e: "unat (push_bit 1 c mod ucast b) = unat (push_bit 1 c) mod unat b"
    by (simp add: unat_mod unat_ucast_16_32)
  have p: "0 < unat b" using assms(2) by (simp add: unat_gt_0)
  have "2 dvd unat b" using assms(1) by (metis dvd_trans even_numeral dvd_refl numeral_Bit0_eq_double dvd_triv_left)
  then have "2 dvd unat (push_bit 1 c) mod unat b"
    using dvd2_unat_push_bit_1 [of c] by (simp add: dvd_mod)
  moreover have "unat (push_bit 1 c) mod unat b < unat b" using p by simp
  moreover have "2 dvd unat b" by fact
  ultimately have "unat (push_bit 1 c) mod unat b + 1 < unat b"
    by (elim dvdE) auto
  then show ?thesis using e by simp
qed


lemma cache_read_fields [simp]:
  "bytes_per_sector (snd (fat_sector_cache_read fs sec)) = bytes_per_sector fs"
  "isFAT32 (snd (fat_sector_cache_read fs sec)) = isFAT32 fs"
  "conv_init (snd (fat_sector_cache_read fs sec)) = conv_init fs"
  "first_fat_sector (snd (fat_sector_cache_read fs sec)) = first_fat_sector fs"
  "num_clusters (snd (fat_sector_cache_read fs sec)) = num_clusters fs"
  using geometry_fields [OF geometry_cache_read [of fs sec]] by simp_all

lemma vol_ok_cache_read [simp]: "vol_ok fs \<Longrightarrow> vol_ok (snd (fat_sector_cache_read fs sec))"
  by (simp add: vol_ok_def)

lemma entry_buffer_byte:
  assumes ok: "vol_ok fs"
    and off: "off = (if isFAT32 fs \<noteq> 0 then push_bit 2 c else push_bit 1 c)"
    and k: "unat (off mod ucast (bytes_per_sector fs)) + k < unat (bytes_per_sector fs)"
  shows "sector_buffer (snd (fat_sector_cache_read fs (fat_entry_sector fs c)))
           (unat (off mod ucast (bytes_per_sector fs)) + k)
         = fs_byte fs (fat_entry_addr fs c + of_nat k)"
proof -
  let ?B = "ucast (bytes_per_sector fs) :: u32"
  let ?fs1 = "snd (fat_sector_cache_read fs (fat_entry_sector fs c))"
  have cv: "cache_valid fs" using ok by (simp add: vol_ok_def)
  have "sector_buffer ?fs1 (unat (off mod ?B) + k)
        = fs_byte ?fs1 (sector ?fs1 * ucast (bytes_per_sector ?fs1) + of_nat (unat (off mod ?B) + k))"
    using k by (intro buffer_is_byte) simp
  also have "\<dots> = fs_byte fs (fat_entry_sector fs c * ?B + off mod ?B + of_nat k)"
    using cv by (simp add: add.assoc)
  also have "fat_entry_sector fs c * ?B + off mod ?B = fat_entry_addr fs c"
    unfolding fat_entry_sector_def fat_entry_addr_def off [symmetric]
    by (rule entry_sector_addr)
  finally show ?thesis .
qed

lemma fat_entry_get_value:
  assumes ok: "vol_ok fs"
  shows "fat_entry_get fs c
         = Some (fat_value fs c, snd (fat_sector_cache_read fs (fat_entry_sector fs c)))"
proof -
  let ?B = "ucast (bytes_per_sector fs) :: u32"
  let ?fs1 = "snd (fat_sector_cache_read fs (fat_entry_sector fs c))"
  have nz: "bytes_per_sector fs \<noteq> 0" and d4: "4 dvd unat (bytes_per_sector fs)"
    using ok by (simp_all add: vol_ok_def)
  show ?thesis
  proof (cases "isFAT32 fs \<noteq> 0")
    case True
    define off where "off = push_bit 2 c"
    have off: "off = (if isFAT32 fs \<noteq> 0 then push_bit 2 c else push_bit 1 c)"
      using True by (simp add: off_def)
    have room: "unat (off mod ?B) + 3 < unat (bytes_per_sector fs)"
      unfolding off_def by (rule entry_offset_room32 [OF d4 nz])
    have b: "sector_buffer ?fs1 (unat (off mod ?B) + k) = fs_byte fs (fat_entry_addr fs c + of_nat k)"
      if "k \<le> 3" for k
      using that room by (intro entry_buffer_byte [OF ok off]) simp
    have b0: "sector_buffer ?fs1 (unat (off mod ?B)) = fs_byte fs (fat_entry_addr fs c)"
      using b [of 0] by simp
    have b1: "sector_buffer ?fs1 (Suc (unat (off mod ?B))) = fs_byte fs (fat_entry_addr fs c + 1)"
      using b [of 1] by simp
    have b2: "sector_buffer ?fs1 (Suc (Suc (unat (off mod ?B)))) = fs_byte fs (fat_entry_addr fs c + 2)"
      using b [of 2] by simp
    have b3: "sector_buffer ?fs1 (unat (off mod ?B) + 3) = fs_byte fs (fat_entry_addr fs c + 3)"
      using b [of 3] by simp
    have sec: "first_fat_sector fs + off div ?B = fat_entry_sector fs c"
      by (simp add: fat_entry_sector_def off)
    show ?thesis
      using True nz
      by (simp add: fat_entry_get_def fat_value_def fat_raw_def fat_interpret_def Let_def
            off_def [symmetric] sec b0 b1 b2 b3)
  next
    case False
    define off where "off = c * 2"
    have pb: "off = push_bit 1 c"
      by (simp add: off_def)
    have off: "off = (if isFAT32 fs \<noteq> 0 then push_bit 2 c else push_bit 1 c)"
      using False by (simp add: off_def)
    have room: "unat (off mod ?B) + 1 < unat (bytes_per_sector fs)"
      unfolding pb by (rule entry_offset_room16 [OF d4 nz])
    have b: "sector_buffer ?fs1 (unat (off mod ?B) + k) = fs_byte fs (fat_entry_addr fs c + of_nat k)"
      if "k \<le> 1" for k
      using that room by (intro entry_buffer_byte [OF ok off]) simp
    have b0: "sector_buffer ?fs1 (unat (off mod ?B)) = fs_byte fs (fat_entry_addr fs c)"
      using b [of 0] by simp
    have b1: "sector_buffer ?fs1 (Suc (unat (off mod ?B))) = fs_byte fs (fat_entry_addr fs c + 1)"
      using b [of 1] by simp
    have sec: "first_fat_sector fs + off div ?B = fat_entry_sector fs c"
      by (simp add: fat_entry_sector_def off)
    show ?thesis
      using False nz
      by (simp add: fat_entry_get_def fat_value_def fat_raw_def fat_interpret_def Let_def
            off_def [symmetric] sec b0 b1)
  qed
qed


lemma fat_value_cong:
  assumes "fs_byte fs1 = fs_byte fs" and "geometry fs1 = geometry fs"
  shows "fat_value fs1 = fat_value fs"
  using assms(1) geometry_fields [OF assms(2)]
  by (simp add: fun_eq_iff fat_value_def fat_raw_def fat_interpret_def fat_entry_addr_def Let_def)

lemma vol_ok_geometry:
  "vol_ok fs \<Longrightarrow> geometry fs1 = geometry fs \<Longrightarrow> cache_valid fs1 \<Longrightarrow> vol_ok fs1"
  using geometry_fields [of fs1 fs] by (simp add: vol_ok_def)

section \<open>Statistics (C9)\<close>

lemma examined_step:
  assumes "c < num_clusters fs"
  shows "examined fs c = c # examined fs (c + 1)"
proof -
  have "unat c < unat (num_clusters fs)" using assms by (simp add: word_less_nat_alt)
  then have "[unat c..<unat (num_clusters fs)] = unat c # [unat c + 1..<unat (num_clusters fs)]"
    by (simp add: upt_conv_Cons)
  then show ?thesis using assms by (simp add: examined_def unat_succ_lt)
qed

lemma examined_done:
  assumes "\<not> c < num_clusters fs"
  shows "examined fs c = []"
  using assms by (simp add: examined_def word_less_nat_alt)

lemma fat_stats_loop_count:
  assumes "vol_ok fs"
  shows "\<exists>fs'. fat_stats_loop fs c n = Some (n + of_nat (length (used_clusters fs c)), fs')
               \<and> vol_ok fs' \<and> fs_byte fs' = fs_byte fs \<and> geometry fs' = geometry fs"
  using assms
proof (induction fs c n rule: fat_stats_loop.induct)
  case (1 fs c n)
  show ?case
  proof (cases "c < num_clusters fs")
    case False
    then show ?thesis
      using 1(2) by (simp add: fat_stats_loop.simps [of fs c n] used_clusters_def examined_done)
  next
    case True
    let ?fs1 = "snd (fat_sector_cache_read fs (fat_entry_sector fs c))"
    let ?n1 = "if \<not> fat_cluster_free_p (fat_value fs c) then n + 1 else n"
    have get: "fat_entry_get fs c = Some (fat_value fs c, ?fs1)"
      using 1(2) by (rule fat_entry_get_value)
    have ok1: "vol_ok ?fs1" using 1(2) by simp
    have by1: "fs_byte ?fs1 = fs_byte fs" using 1(2) by (simp add: vol_ok_def)
    have ge1: "geometry ?fs1 = geometry fs" by simp
    have val: "fat_value ?fs1 = fat_value fs" using by1 ge1 by (rule fat_value_cong)
    from 1(1) [OF True get refl ok1]
    obtain fs' where
      loop: "fat_stats_loop ?fs1 (c + 1) ?n1
             = Some (?n1 + of_nat (length (used_clusters ?fs1 (c + 1))), fs')"
      and ok: "vol_ok fs'" and by': "fs_byte fs' = fs_byte ?fs1" and ge': "geometry fs' = geometry ?fs1"
      by blast
    have ex1: "examined ?fs1 (c + 1) = examined fs (c + 1)"
      by (simp add: examined_def)
    have used: "used_clusters fs c
                = (if \<not> fat_cluster_free_p (fat_value fs c) then [c] else []) @ used_clusters ?fs1 (c + 1)"
      using True by (simp add: used_clusters_def examined_step val ex1)
    have "fat_stats_loop fs c n = Some (n + of_nat (length (used_clusters fs c)), fs')"
      using True get loop used by (simp add: fat_stats_loop.simps [of fs c n])
    then show ?thesis using ok by' by1 ge' ge1 by simp
  qed
qed


lemma length_used_le: "length (used_clusters fs c) \<le> unat (num_clusters fs) - unat c"
proof -
  have "length (used_clusters fs c) \<le> length (examined fs c)"
    unfolding used_clusters_def by (rule length_filter_le)
  then show ?thesis by (simp add: examined_def)
qed

text \<open>
  What \<^verbatim>\<open>fat_stats\<close> computes.  On a volume whose sector size is usable it returns,
  with \<^verbatim>\<open>total\<close> the number of clusters, \<^verbatim>\<open>free\<close> and \<^verbatim>\<open>alloc\<close> adding up to
  \<^verbatim>\<open>total\<close> (as words and as numbers), and \<^verbatim>\<open>alloc\<close> the number of cluster
  indices from 2 up to, not including, \<^verbatim>\<open>num_clusters\<close> for which \<^verbatim>\<open>fat_entry_get\<close>
  returns a value that is not free.  The count ranges over those indices only: the
  entries of clusters 0 and 1 and of the two highest data clusters,
  \<^verbatim>\<open>num_clusters\<close> and \<^verbatim>\<open>num_clusters + 1\<close>, have no part in it.
\<close>

lemma fat_stats_counts_as_read:
  assumes "vol_ok fs"
  shows "\<exists>st fs'. fat_stats fs = Some (st, fs')
           \<and> total st = num_clusters fs
           \<and> free st + alloc st = total st
           \<and> unat (free st) + unat (alloc st) = unat (total st)
           \<and> unat (alloc st)
               = length (filter (\<lambda>c. \<not> fat_cluster_free_p (fat_value fs c))
                          (map of_nat [2..<unat (num_clusters fs)]))"
proof -
  let ?k = "length (used_clusters fs CLUST_FIRST)"
  obtain fs' where loop: "fat_stats_loop fs CLUST_FIRST 0 = Some (0 + of_nat ?k, fs')"
    and ge: "geometry fs' = geometry fs"
    using fat_stats_loop_count [OF assms, of CLUST_FIRST 0] by blast
  have n: "num_clusters fs' = num_clusters fs"
    using geometry_fields [OF ge] by simp
  have kle: "?k \<le> unat (num_clusters fs)"
    using length_used_le [of fs CLUST_FIRST] by simp
  have "unat (num_clusters fs) < 2 ^ 32"
    using unsigned_less [of "num_clusters fs", where 'a=nat] by simp
  with kle have k32: "?k < 2 ^ 32" by simp
  have uk: "unat (of_nat ?k :: u32) = ?k"
    using k32 by (simp add: unat_of_nat take_bit_nat_eq_self)
  have le: "(of_nat ?k :: u32) \<le> num_clusters fs"
    using kle uk by (simp add: word_le_nat_alt)
  have sub: "unat (num_clusters fs - of_nat ?k) = unat (num_clusters fs) - ?k"
    using le uk by (simp add: unat_sub)
  have list: "used_clusters fs CLUST_FIRST
              = filter (\<lambda>c. \<not> fat_cluster_free_p (fat_value fs c))
                  (map of_nat [2..<unat (num_clusters fs)])"
    by (simp add: used_clusters_def examined_def CLUST_FIRST_def)
  show ?thesis
    using loop n uk sub kle list
    by (simp add: fat_stats_def Let_def)
qed

text \<open>At the small volume: of the clusters 2 to 7, four are in use.\<close>

lemma fat_stats_counts_as_read_vol:
  "vol_ok vol \<and>
   (\<exists>st fs'. fat_stats vol = Some (st, fs') \<and> total st = 8 \<and> unat (free st) = 4
              \<and> unat (alloc st) = 4)"
proof -
  have ok: "vol_ok vol"
    by (simp add: vol_ok_def cache_valid_def vol_def FAT_SECTOR_SIZE_def)
  have cnt: "length (filter (\<lambda>c. \<not> fat_cluster_free_p (fat_value vol c))
                      (map of_nat [2..<unat (num_clusters vol)])) = 4"
    by code_simp
  have n: "num_clusters vol = 8" by (simp add: vol_def)
  from fat_stats_counts_as_read [OF ok] cnt n ok show ?thesis
    by auto
qed

text \<open>
  C9: \<^verbatim>\<open>alloc\<close> is the number of cluster indices from 2 up to, not including,
  \<^verbatim>\<open>num_clusters\<close> whose FAT entry is not free.  \<^verbatim>\<open>fat_stats\<close> takes the entries
  from \<^verbatim>\<open>fat_entry_get\<close>, which compares an entry with the end-of-chain range before
  it masks it.  On the volume \<open>vol_free_reserved\<close> the entry of cluster 6 is stored as
  \<open>0xF0000000\<close>: masked it is 0, free, and four of the entries of the clusters 2 to 7
  are not free.  \<^verbatim>\<open>fat_stats\<close> counts cluster 6 too: it returns \<^verbatim>\<open>alloc\<close> 5 and
  \<^verbatim>\<open>free\<close> 3.
\<close>

theorem fat_stats_counts_reserved_bits:
  "fat_entry_disk vol_free_reserved 6 = 0xf0000000
   \<and> fat_cluster_free_p (fat_entry_spec vol_free_reserved 6)
   \<and> length (filter (\<lambda>c. \<not> fat_cluster_free_p (fat_entry_spec vol_free_reserved c))
               (map of_nat [2..<unat (num_clusters vol_free_reserved)])) = 4
   \<and> map_option (\<lambda>(st, fs'). (total st, free st, alloc st)) (fat_stats vol_free_reserved)
       = Some (8, 3, 5)"
  by code_simp

section \<open>Reading a FAT entry (C4)\<close>

text \<open>
  C4.  \<^verbatim>\<open>fat_entry_get\<close> compares the entry as read with the end-of-chain bound and
  masks only the value it returns.  On the FAT32 volume \<open>vol_reserved\<close> the entry of
  cluster 6 is read as \<open>0x10000007\<close>; masked with \<open>0x0FFFFFFF\<close> it is 7, which is below
  the end-of-chain range, so the claim has 7 returned.  \<^verbatim>\<open>fat_entry_get\<close> returns the
  end-of-chain sentinel.
\<close>

theorem fat_entry_get_compares_before_mask:
  "fat_raw vol_reserved 6 = 0x10000007 \<and>
   fat_raw vol_reserved 6 AND FAT32_MASK = 7 \<and>
   map_option fst (fat_entry_get vol_reserved 6) = Some CLUST_EOFS"
  by code_simp

section \<open>Writing (C7, C1)\<close>

text \<open>
  C7.  On a handle whose mode has neither \<^verbatim>\<open>O_RDWR\<close> nor \<^verbatim>\<open>O_WRONLY\<close>,
  \<^verbatim>\<open>fat_write\<close> returns the error \<open>EINVAL\<close> and leaves the handle and the volume as
  they were: no device transfer is made, and offset, size and FAT are unchanged.  On a
  handle with one of the two flags it never returns that error.
\<close>

theorem fat_write_invalid_mode:
  "(mode fat AND O_RDWR fl = 0 \<and> mode fat AND O_WRONLY fl = 0 \<longrightarrow>
      fat_write fl fat fs buf len = Some (Inl EINVAL, fat, fs)) \<and>
   (mode fat AND O_RDWR fl \<noteq> 0 \<or> mode fat AND O_WRONLY fl \<noteq> 0 \<longrightarrow>
      (\<forall>fat' fs'. fat_write fl fat fs buf len \<noteq> Some (Inl EINVAL, fat', fs')))"
  by (auto simp: fat_write_def Let_def split: Option.bind_splits)

text \<open>The theorem at the small volume, for a read-only and for a read-write handle.\<close>

theorem fat_write_invalid_mode_witness:
  "fat_write newlib_fcntl (note_handle 0) vol (\<lambda>i. 0x58) 5 = Some (Inl EINVAL, note_handle 0, vol) \<and>
   fat_write newlib_fcntl (note_handle 2) vol (\<lambda>i. 0x58) 5 \<noteq> Some (Inl EINVAL, note_handle 2, vol)"
  using fat_write_invalid_mode [of "note_handle 0" newlib_fcntl vol "\<lambda>i. 0x58" 5]
        fat_write_invalid_mode [of "note_handle 2" newlib_fcntl vol "\<lambda>i. 0x58" 5]
  by (simp add: note_handle_def newlib_fcntl_def)

text \<open>
  C1.  \<^verbatim>\<open>fat_write\<close> adds the count of bytes written to \<^verbatim>\<open>file_size\<close>, wherever
  the write started.  The file \<^verbatim>\<open>note.txt\<close> of the small volume is opened for
  reading and writing: its size is 600 and its offset 0.  Writing five bytes there
  overwrites bytes of the file and leaves the offset at 5; the size recorded in the
  handle and in the directory slot on the device is then 605, where the claim has
  \<open>max 600 5 = 600\<close>.
\<close>

theorem fat_write_interior_grows_size:
  "do {
     (r, fs1) \<leftarrow> fat_open newlib_fcntl vol (Some note_txt) (O_RDWR newlib_fcntl);
     h \<leftarrow> (case r of Inl e \<Rightarrow> None | Inr h \<Rightarrow> Some h);
     (n, h', fs') \<leftarrow> fat_write newlib_fcntl h fs1 (\<lambda>i. 0x58) 5;
     Some (file_offset h, file_size h, n, file_offset h', file_size h',
           de_file_size (\<lambda>i. dev_mem fs' (of_nat i)) 1568)
   } = Some (0, 600, Inr 5, 5, 605, 605)"
  by code_simp

text \<open>So the size recorded after that write is not the greater of the old size and the
  offset.\<close>

theorem fat_write_interior_grows_size_witness:
  "\<exists>sz. do {
     (r, fs1) \<leftarrow> fat_open newlib_fcntl vol (Some note_txt) (O_RDWR newlib_fcntl);
     h \<leftarrow> (case r of Inl e \<Rightarrow> None | Inr h \<Rightarrow> Some h);
     (n, h', fs') \<leftarrow> fat_write newlib_fcntl h fs1 (\<lambda>i. 0x58) 5;
     Some (file_offset h, file_size h, n, file_offset h', file_size h',
           de_file_size (\<lambda>i. dev_mem fs' (of_nat i)) 1568)
   } = Some (0, 600, Inr 5, 5, sz, sz) \<and> sz \<noteq> max 600 5"
  using fat_write_interior_grows_size by simp

section \<open>Seeking (C6)\<close>






lemma ucast_add_signed:
  "(ucast (w :: u32) :: 'o::len word) + offset = word_of_int (uint w + sint offset)"
  by (simp add: of_int_add)






section \<open>Unlinking a file with a long name (C3)\<close>

text \<open>
  C3: unlink of a file whose short slot is preceded by long-filename slots marks those
  slots deleted together with the short slot.  The loop of \<^verbatim>\<open>fat_unlink\<close> that marks
  while the slot is a long-filename slot starts at the position the search recorded,
  which is the short slot, so it marks nothing before it.  On the small volume
  \<^verbatim>\<open>fat_unlink\<close> of \<^verbatim>\<open>note.txt\<close> returns 0 with the directory sector in the cache: the
  long-filename slot at offset 0 still starts with \<open>0x41\<close>, and only the short slot at
  offset 32 starts with \<open>0xE5\<close>.  The cache is not marked dirty, so the flush writes
  nothing and the device still holds \<open>N\<close> (\<open>0x4e\<close>) at the start of the short slot.
\<close>

theorem fat_unlink_leaves_long_slot:
  "case fat_unlink vol (Some note_txt) of
     None \<Rightarrow> False
   | Some (r, fs') \<Rightarrow>
       r = Inr 0 \<and> sector fs' = 3
       \<and> fat_de_attr_long_filename_p (sector_buffer fs') 0
       \<and> de_name0 (sector_buffer fs') 0 = 0x41
       \<and> de_name0 (sector_buffer fs') 32 = SLOT_DELETED
       \<and> fs_byte fs' 1536 = 0x41 \<and> fs_byte fs' 1568 = SLOT_DELETED
       \<and> dev_mem fs' 1536 = 0x41 \<and> dev_mem fs' 1568 = 0x4e"
  by code_simp

section \<open>Writing the FAT through the cache\<close>

lemma of_nat_unat_sub: "(a :: u32) = base + of_nat (unat (a - base))"
  by simp

lemma fs_byte_buffer_upd:
  assumes "i < unat (bytes_per_sector fs)"
  shows "fs_byte (fs\<lparr>sector_buffer := (sector_buffer fs)(i := v)\<rparr>)
         = (fs_byte fs)(sector fs * ucast (bytes_per_sector fs) + of_nat i := v)"
proof (rule ext)
  fix a
  let ?base = "sector fs * ucast (bytes_per_sector fs)"
  show "fs_byte (fs\<lparr>sector_buffer := (sector_buffer fs)(i := v)\<rparr>) a
        = ((fs_byte fs)(?base + of_nat i := v)) a"
  proof (cases "a = ?base + of_nat i")
    case True
    then show ?thesis
      using assms by (simp add: fs_byte_def of_nat_less_ucast unat_of_nat_u16_bound)
  next
    case False
    have "unat (a - ?base) \<noteq> i"
    proof
      assume "unat (a - ?base) = i"
      then have "a = ?base + of_nat i" using of_nat_unat_sub [of a ?base] by simp
      with False show False by simp
    qed
    then show ?thesis using False by (simp add: fs_byte_def)
  qed
qed

lemma fs_byte_dirty [simp]: "fs_byte (fs\<lparr>dirty := d\<rparr>) = fs_byte fs"
  by (rule ext) (simp add: fs_byte_def)

lemma fs_byte_cache_write:
  "sector fs = sec \<Longrightarrow> fs_byte (snd (fat_sector_cache_write fs sec)) = fs_byte fs"
  by (rule ext) (simp add: fs_byte_def fat_sector_cache_write_def Let_def)

lemma cache_valid_cache_write [simp]: "cache_valid (snd (fat_sector_cache_write fs sec))"
  by (simp add: cache_valid_def fat_sector_cache_write_def Let_def)


lemma fs_byte_buffer_upd_gen:
  assumes "i < unat (bytes_per_sector fs)"
  shows "fs_byte (fs\<lparr>sector_buffer := b(i := v)\<rparr>)
         = (fs_byte (fs\<lparr>sector_buffer := b\<rparr>))
             (sector fs * ucast (bytes_per_sector fs) + of_nat i := v)"
  using fs_byte_buffer_upd [of i "fs\<lparr>sector_buffer := b\<rparr>" v] assms by simp

lemma fat_entry_set_bytes32:
  assumes ok: "vol_ok fs" and f32: "isFAT32 fs \<noteq> 0"
  shows "\<exists>fs2. fat_entry_set fs c v = Some fs2 \<and> vol_ok fs2 \<and> geometry fs2 = geometry fs
           \<and> fs_byte fs2 = (fs_byte fs)
                (fat_entry_addr fs c := conv_uchar v 0,
                 fat_entry_addr fs c + 1 := conv_uchar v 1,
                 fat_entry_addr fs c + 2 := conv_uchar v 2,
                 fat_entry_addr fs c + 3 := conv_uchar v 3)"
proof -
  let ?B = "ucast (bytes_per_sector fs) :: u32"
  let ?sec = "fat_entry_sector fs c"
  let ?fs1 = "snd (fat_sector_cache_read fs ?sec)"
  define off where "off = push_bit 2 c"
  define o1 where "o1 = unat (off mod ?B)"
  have nz: "bytes_per_sector fs \<noteq> 0" and d4: "4 dvd unat (bytes_per_sector fs)"
    and cv: "cache_valid fs"
    using ok by (simp_all add: vol_ok_def)
  have sec: "first_fat_sector fs + off div ?B = ?sec"
    using f32 by (simp add: fat_entry_sector_def off_def)
  have room: "o1 + 3 < unat (bytes_per_sector fs)"
    unfolding o1_def off_def by (rule entry_offset_room32 [OF d4 nz])
  have addr: "?sec * ?B + of_nat (o1 + k) = fat_entry_addr fs c + of_nat k" for k
  proof -
    have "?sec * ?B + off mod ?B = fat_entry_addr fs c"
      using f32 unfolding fat_entry_sector_def fat_entry_addr_def off_def
      by (simp add: entry_sector_addr)
    then show ?thesis by (simp add: o1_def add.assoc)
  qed
  have a0: "?sec * ?B + of_nat o1 = fat_entry_addr fs c" using addr [of 0] by simp
  have a1: "?sec * ?B + (1 + of_nat o1) = fat_entry_addr fs c + 1"
    using addr [of 1] by (simp add: add.commute)
  have a2: "?sec * ?B + (2 + of_nat o1) = fat_entry_addr fs c + 2"
    using addr [of 2] by (simp add: add.commute)
  have a3: "?sec * ?B + (of_nat o1 + 3) = fat_entry_addr fs c + 3"
    using addr [of 3] by simp
  define fs2 where
    "fs2 = snd (fat_sector_cache_write
                  (?fs1\<lparr>sector_buffer := (sector_buffer ?fs1)
                     (o1 := conv_uchar v 0, o1 + 1 := conv_uchar v 1,
                      o1 + 2 := conv_uchar v 2, o1 + 3 := conv_uchar v 3)\<rparr>) ?sec)"
  have set: "fat_entry_set fs c v = Some fs2"
    using f32 nz
    by (simp add: fat_entry_set_def Let_def off_def [symmetric] sec o1_def [symmetric] fs2_def)
  have by2: "fs_byte fs2 = (fs_byte fs)
                (fat_entry_addr fs c := conv_uchar v 0,
                 fat_entry_addr fs c + 1 := conv_uchar v 1,
                 fat_entry_addr fs c + 2 := conv_uchar v 2,
                 fat_entry_addr fs c + 3 := conv_uchar v 3)"
    using room cv
    by (simp add: fs2_def fs_byte_cache_write fs_byte_buffer_upd_gen a0 a1 a2 a3)
  have "vol_ok fs2"
    using ok by (simp add: fs2_def vol_ok_def fat_sector_cache_write_def Let_def cache_valid_def)
  moreover have "geometry fs2 = geometry fs"
    by (simp add: fs2_def)
  ultimately show ?thesis using set by2 by blast
qed


lemma fat_entry_set_bytes16:
  assumes ok: "vol_ok fs" and f16: "isFAT32 fs = 0"
  shows "\<exists>fs2. fat_entry_set fs c v = Some fs2 \<and> vol_ok fs2 \<and> geometry fs2 = geometry fs
           \<and> fs_byte fs2 = (fs_byte fs)
                (fat_entry_addr fs c := conv_uchar v 0,
                 fat_entry_addr fs c + 1 := conv_uchar v 1)"
proof -
  let ?B = "ucast (bytes_per_sector fs) :: u32"
  let ?sec = "fat_entry_sector fs c"
  let ?fs1 = "snd (fat_sector_cache_read fs ?sec)"
  define off where "off = c * 2"
  define o1 where "o1 = unat (off mod ?B)"
  have pb: "off = push_bit 1 c" by (simp add: off_def)
  have nz: "bytes_per_sector fs \<noteq> 0" and d4: "4 dvd unat (bytes_per_sector fs)"
    and cv: "cache_valid fs"
    using ok by (simp_all add: vol_ok_def)
  have sec: "first_fat_sector fs + off div ?B = ?sec"
    using f16 by (simp add: fat_entry_sector_def off_def)
  have room: "o1 + 1 < unat (bytes_per_sector fs)"
    unfolding o1_def pb by (rule entry_offset_room16 [OF d4 nz])
  have addr: "?sec * ?B + of_nat (o1 + k) = fat_entry_addr fs c + of_nat k" for k
  proof -
    have "?sec * ?B + off mod ?B = fat_entry_addr fs c"
      using f16 unfolding fat_entry_sector_def fat_entry_addr_def off_def
      by (simp add: entry_sector_addr)
    then show ?thesis by (simp add: o1_def add.assoc)
  qed
  have a0: "?sec * ?B + of_nat o1 = fat_entry_addr fs c" using addr [of 0] by simp
  have a1: "?sec * ?B + (1 + of_nat o1) = fat_entry_addr fs c + 1"
    using addr [of 1] by (simp add: add.commute)
  define fs2 where
    "fs2 = snd (fat_sector_cache_write
                  (?fs1\<lparr>sector_buffer := (sector_buffer ?fs1)
                     (o1 := conv_uchar v 0, o1 + 1 := conv_uchar v 1)\<rparr>) ?sec)"
  have set: "fat_entry_set fs c v = Some fs2"
    using f16 nz
    by (simp add: fat_entry_set_def Let_def off_def [symmetric] sec o1_def [symmetric] fs2_def)
  have by2: "fs_byte fs2 = (fs_byte fs)
                (fat_entry_addr fs c := conv_uchar v 0,
                 fat_entry_addr fs c + 1 := conv_uchar v 1)"
    using room cv
    by (simp add: fs2_def fs_byte_cache_write fs_byte_buffer_upd_gen a0 a1)
  have "vol_ok fs2"
    using ok by (simp add: fs2_def vol_ok_def fat_sector_cache_write_def Let_def cache_valid_def)
  moreover have "geometry fs2 = geometry fs"
    by (simp add: fs2_def)
  ultimately show ?thesis using set by2 by blast
qed

lemma entry_addrs_32:
  "isFAT32 fs \<noteq> 0 \<Longrightarrow>
   set (fat_entry_addrs fs c)
   = {fat_entry_addr fs c, fat_entry_addr fs c + 1, fat_entry_addr fs c + 2, fat_entry_addr fs c + 3}"
  by (simp add: fat_entry_addrs_def Let_def)

lemma entry_addrs_16:
  "isFAT32 fs = 0 \<Longrightarrow>
   set (fat_entry_addrs fs c) = {fat_entry_addr fs c, fat_entry_addr fs c + 1}"
  by (simp add: fat_entry_addrs_def Let_def)

lemma conv_uchar_0 [simp]: "conv_uchar 0 k = 0"
  by (simp add: conv_uchar_def)

lemma fat_entry_set_zero:
  assumes ok: "vol_ok fs"
  shows "\<exists>fs2. fat_entry_set fs c 0 = Some fs2 \<and> vol_ok fs2 \<and> geometry fs2 = geometry fs
           \<and> (\<forall>a. fs_byte fs2 a = (if a \<in> set (fat_entry_addrs fs c) then 0 else fs_byte fs a))"
proof (cases "isFAT32 fs \<noteq> 0")
  case True
  from fat_entry_set_bytes32 [OF ok True, of c 0] obtain fs2 where
    "fat_entry_set fs c 0 = Some fs2" "vol_ok fs2" "geometry fs2 = geometry fs"
    and b: "fs_byte fs2 = (fs_byte fs)
                (fat_entry_addr fs c := 0, fat_entry_addr fs c + 1 := 0,
                 fat_entry_addr fs c + 2 := 0, fat_entry_addr fs c + 3 := 0)"
    by auto
  moreover have "fs_byte fs2 a = (if a \<in> set (fat_entry_addrs fs c) then 0 else fs_byte fs a)" for a
    unfolding b entry_addrs_32 [OF True] by simp
  ultimately show ?thesis by blast
next
  case False
  then have f16: "isFAT32 fs = 0" by simp
  from fat_entry_set_bytes16 [OF ok f16, of c 0] obtain fs2 where
    "fat_entry_set fs c 0 = Some fs2" "vol_ok fs2" "geometry fs2 = geometry fs"
    and b: "fs_byte fs2 = (fs_byte fs)
                (fat_entry_addr fs c := 0, fat_entry_addr fs c + 1 := 0)"
    by auto
  moreover have "fs_byte fs2 a = (if a \<in> set (fat_entry_addrs fs c) then 0 else fs_byte fs a)" for a
    unfolding b entry_addrs_16 [OF f16] by simp
  ultimately show ?thesis by blast
qed

lemma legal_cluster_bound: "legal_cluster fs c \<Longrightarrow> unat c < 2 ^ 28"
  by (simp add: legal_cluster_def CLUST_EOFS_def FAT32_MASK_def FAT16_MASK_def
        word_less_nat_alt split: if_splits)

lemma legal_not_last: "legal_cluster fs c \<Longrightarrow> \<not> fat_cluster_last_p c"
  by (simp add: legal_cluster_def fat_cluster_last_p_def CLUST_EOFS_def FAT32_MASK_def
        FAT16_MASK_def word_less_nat_alt word_le_nat_alt split: if_splits)

lemma unat_entry_offset:
  assumes "unat (c :: u32) < 2 ^ 28" and "k < 4"
  shows "unat (push_bit 2 c + of_nat k) = 4 * unat c + k"
    and "unat (push_bit 1 c + of_nat k) = 2 * unat c + k"
proof -
  have "push_bit 2 c + of_nat k = (of_nat (4 * unat c + k) :: u32)"
    by (simp add: push_bit_eq_mult)
  moreover have "4 * unat c + k < 2 ^ 32" using assms by simp
  ultimately show "unat (push_bit 2 c + of_nat k) = 4 * unat c + k"
    by (simp only: unat_of_nat) (simp add: take_bit_nat_eq_self)
  have "push_bit 1 c + of_nat k = (of_nat (2 * unat c + k) :: u32)"
    by (simp add: push_bit_eq_mult)
  moreover have "2 * unat c + k < 2 ^ 32" using assms by simp
  ultimately show "unat (push_bit 1 c + of_nat k) = 2 * unat c + k"
    by (simp only: unat_of_nat) (simp add: take_bit_nat_eq_self)
qed

lemma entry_addrs_disjoint:
  assumes l1: "legal_cluster fs c" and l2: "legal_cluster fs c'" and ne: "c \<noteq> c'"
  shows "set (fat_entry_addrs fs c) \<inter> set (fat_entry_addrs fs c') = {}"
proof -
  have b1: "unat c < 2 ^ 28" and b2: "unat c' < 2 ^ 28"
    using legal_cluster_bound [OF l1] legal_cluster_bound [OF l2] by simp_all
  have nn: "unat c \<noteq> unat c'" using ne by (simp add: word_unat_eq_iff)
  have d32: "push_bit 2 c + of_nat k \<noteq> push_bit 2 c' + (of_nat j :: u32)"
    if "k < 4" "j < 4" for k j
  proof
    assume "push_bit 2 c + of_nat k = push_bit 2 c' + (of_nat j :: u32)"
    then have "unat (push_bit 2 c + of_nat k) = unat (push_bit 2 c' + (of_nat j :: u32))" by simp
    then have "4 * unat c + k = 4 * unat c' + j"
      using that b1 b2 by (simp only: unat_entry_offset)
    then show False using that nn by arith
  qed
  have d16: "push_bit 1 c + of_nat k \<noteq> push_bit 1 c' + (of_nat j :: u32)"
    if "k < 2" "j < 2" for k j
  proof
    assume "push_bit 1 c + of_nat k = push_bit 1 c' + (of_nat j :: u32)"
    then have "unat (push_bit 1 c + of_nat k) = unat (push_bit 1 c' + (of_nat j :: u32))" by simp
    then have "2 * unat c + k = 2 * unat c' + j"
      using that b1 b2 by (simp only: unat_entry_offset)
    then show False using that nn by arith
  qed
  show ?thesis
  proof (cases "isFAT32 fs \<noteq> 0")
    case True
    show ?thesis
      unfolding entry_addrs_32 [OF True]
      using d32 [of 0 0] d32 [of 0 1] d32 [of 0 2] d32 [of 0 3]
        d32 [of 1 0] d32 [of 1 1] d32 [of 1 2] d32 [of 1 3]
        d32 [of 2 0] d32 [of 2 1] d32 [of 2 2] d32 [of 2 3]
        d32 [of 3 0] d32 [of 3 1] d32 [of 3 2] d32 [of 3 3] True
      by (simp add: fat_entry_addr_def)
  next
    case False
    then have f16: "isFAT32 fs = 0" by simp
    show ?thesis
      unfolding entry_addrs_16 [OF f16]
      using d16 [of 0 0] d16 [of 0 1] d16 [of 1 0] d16 [of 1 1] f16
      by (simp add: fat_entry_addr_def)
  qed
qed


section \<open>Cluster chains\<close>

lemma fat_entry_addr_geometry:
  "geometry fs2 = geometry fs \<Longrightarrow> fat_entry_addr fs2 = fat_entry_addr fs"
  using geometry_fields [of fs2 fs] by (simp add: fun_eq_iff fat_entry_addr_def)

lemma fat_entry_addrs_geometry:
  "geometry fs2 = geometry fs \<Longrightarrow> fat_entry_addrs fs2 = fat_entry_addrs fs"
  using geometry_fields [of fs2 fs] fat_entry_addr_geometry [of fs2 fs]
  by (simp add: fun_eq_iff fat_entry_addrs_def)

lemma legal_cluster_geometry:
  "geometry fs2 = geometry fs \<Longrightarrow> legal_cluster fs2 = legal_cluster fs"
  using geometry_fields [of fs2 fs] by (simp add: fun_eq_iff legal_cluster_def)

lemma fat_value_frame:
  assumes ge: "geometry fs2 = geometry fs"
    and same: "\<forall>a \<in> set (fat_entry_addrs fs y). fs_byte fs2 a = fs_byte fs a"
  shows "fat_value fs2 y = fat_value fs y"
proof -
  note g = geometry_fields [OF ge]
  have a: "fat_entry_addr fs2 y = fat_entry_addr fs y"
    using fat_entry_addr_geometry [OF ge] by simp
  show ?thesis
  proof (cases "isFAT32 fs \<noteq> 0")
    case True
    then show ?thesis
      using same g a unfolding entry_addrs_32 [OF True]
      by (simp add: fat_value_def fat_raw_def fat_interpret_def Let_def)
  next
    case False
    then have f16: "isFAT32 fs = 0" by simp
    show ?thesis
      using same g a f16 unfolding entry_addrs_16 [OF f16]
      by (simp add: fat_value_def fat_raw_def fat_interpret_def Let_def)
  qed
qed

lemma fat_entry_disk_frame:
  assumes ge: "geometry fs2 = geometry fs"
    and same: "\<forall>a \<in> set (fat_entry_addrs fs y). fs_byte fs2 a = fs_byte fs a"
  shows "fat_entry_disk fs2 y = fat_entry_disk fs y"
proof -
  note g = geometry_fields [OF ge]
  have a: "fat_entry_addr fs2 y = fat_entry_addr fs y"
    using fat_entry_addr_geometry [OF ge] by simp
  show ?thesis
  proof (cases "isFAT32 fs \<noteq> 0")
    case True
    then show ?thesis
      using same g a unfolding entry_addrs_32 [OF True]
      by (simp add: fat_entry_disk_def Let_def)
  next
    case False
    then have f16: "isFAT32 fs = 0" by simp
    show ?thesis
      using same g a f16 unfolding entry_addrs_16 [OF f16]
      by (simp add: fat_entry_disk_def Let_def)
  qed
qed

lemma fat_entry_spec_frame:
  assumes ge: "geometry fs2 = geometry fs"
    and same: "\<forall>a \<in> set (fat_entry_addrs fs y). fs_byte fs2 a = fs_byte fs a"
  shows "fat_entry_spec fs2 y = fat_entry_spec fs y"
  using fat_entry_disk_frame [OF ge same] geometry_fields [OF ge]
  by (simp add: fat_entry_spec_def Let_def)

text \<open>A well-formed chain whose entries \<^verbatim>\<open>fat_entry_get\<close> reads as the spec does is the
  chain that \<^verbatim>\<open>fat_cluster_chain_free\<close> goes through.\<close>

lemma is_chain_read:
  assumes "is_chain fs c cs" and "\<forall>x \<in> set cs. fat_value fs x = fat_entry_spec fs x"
  shows "read_chain fs c cs"
  using assms by (induction cs arbitrary: c) auto

lemma read_chain_legal: "read_chain fs c cs \<Longrightarrow> \<forall>y \<in> set cs. legal_cluster fs y"
  by (induction cs arbitrary: c) auto

lemma read_chain_unique: "read_chain fs c xs \<Longrightarrow> read_chain fs c ys \<Longrightarrow> xs = ys"
proof (induction xs arbitrary: c ys)
  case Nil
  then show ?case using legal_not_last by (cases ys) auto
next
  case (Cons x xs)
  then show ?case using legal_not_last by (cases ys) auto
qed

lemma read_chain_suffix: "read_chain fs c (xs @ y # ys) \<Longrightarrow> read_chain fs y (y # ys)"
  by (induction xs arbitrary: c) auto

lemma read_chain_distinct: "read_chain fs c cs \<Longrightarrow> distinct cs"
proof (induction cs arbitrary: c)
  case Nil
  show ?case by simp
next
  case (Cons x xs)
  have tl: "read_chain fs (fat_value fs c) xs" using Cons.prems by simp
  have "x \<notin> set xs"
  proof
    assume "x \<in> set xs"
    then obtain as bs where xs: "xs = as @ x # bs" by (auto simp: in_set_conv_decomp)
    have "read_chain fs x (x # bs)" using tl unfolding xs by (rule read_chain_suffix)
    moreover have "read_chain fs x (x # xs)" using Cons.prems by simp
    ultimately have "x # bs = x # xs" by (rule read_chain_unique)
    then show False unfolding xs by simp
  qed
  then show ?case using Cons.IH [OF tl] by simp
qed

lemma read_chain_cong:
  assumes "geometry fs2 = geometry fs" and "\<forall>y \<in> set cs. fat_value fs2 y = fat_value fs y"
  shows "read_chain fs2 c cs = read_chain fs c cs"
  using assms(2)
  by (induction cs arbitrary: c) (auto simp: legal_cluster_geometry [OF assms(1)])

lemma fat_entry_get_check_value:
  assumes ok: "vol_ok fs"
  shows "fat_entry_get_check fs c
         = Some (if fat_cluster_free_p (fat_value fs c) then CLUST_EOFE else fat_value fs c,
                 snd (fat_sector_cache_read fs (fat_entry_sector fs c)))"
  by (simp add: fat_entry_get_check_def fat_entry_get_value [OF ok])

lemma fat_cluster_chain_free_clears:
  assumes "vol_ok fs" and "read_chain fs c cs"
  shows "\<exists>fs'. fat_cluster_chain_free fs c = Some fs' \<and> vol_ok fs' \<and> geometry fs' = geometry fs
           \<and> (\<forall>a. fs_byte fs' a
                  = (if a \<in> (\<Union>x \<in> set cs. set (fat_entry_addrs fs x)) then 0 else fs_byte fs a))"
  using assms
proof (induction cs arbitrary: fs c)
  case Nil
  then show ?case by (subst fat_cluster_chain_free.simps) simp
next
  case (Cons x xs)
  let ?fs1 = "snd (fat_sector_cache_read fs (fat_entry_sector fs c))"
  have xc: "x = c" and lg: "legal_cluster fs c" and nf: "\<not> fat_cluster_free_p (fat_value fs c)"
    and tl: "read_chain fs (fat_value fs c) xs"
    using Cons.prems(2) by simp_all
  have ok: "vol_ok fs" by (rule Cons.prems(1))
  have nl: "\<not> fat_cluster_last_p c" using lg by (rule legal_not_last)
  have get: "fat_entry_get_check fs c = Some (fat_value fs c, ?fs1)"
    using nf by (simp add: fat_entry_get_check_value [OF ok])
  have ok1: "vol_ok ?fs1" using ok by simp
  have g1: "geometry ?fs1 = geometry fs" by simp
  have b1: "fs_byte ?fs1 = fs_byte fs"
    using ok by (simp add: vol_ok_def)
  from fat_entry_set_zero [OF ok1, of c] obtain fs2 where
    set: "fat_entry_set ?fs1 c 0 = Some fs2" and ok2: "vol_ok fs2"
    and g2: "geometry fs2 = geometry ?fs1"
    and b2: "\<And>a. fs_byte fs2 a = (if a \<in> set (fat_entry_addrs ?fs1 c) then 0 else fs_byte ?fs1 a)"
    by blast
  have g2': "geometry fs2 = geometry fs" using g2 g1 by simp
  have ad1: "fat_entry_addrs ?fs1 = fat_entry_addrs fs"
    by (rule fat_entry_addrs_geometry [OF g1])
  have ad2: "fat_entry_addrs fs2 = fat_entry_addrs fs"
    by (rule fat_entry_addrs_geometry [OF g2'])
  have b2': "fs_byte fs2 a = (if a \<in> set (fat_entry_addrs fs c) then 0 else fs_byte fs a)" for a
    using b2 [of a] by (simp add: ad1 b1)
  have dist: "c \<notin> set xs"
    using read_chain_distinct [OF Cons.prems(2)] xc by simp
  have legal_xs: "\<forall>y \<in> set xs. legal_cluster fs y"
    using read_chain_legal [OF tl] .
  have disj: "set (fat_entry_addrs fs c) \<inter> set (fat_entry_addrs fs y) = {}" if "y \<in> set xs" for y
  proof -
    have "c \<noteq> y" using that dist by auto
    moreover have "legal_cluster fs y" using that legal_xs by simp
    ultimately show ?thesis using lg by (intro entry_addrs_disjoint)
  qed
  have same: "\<forall>y \<in> set xs. fat_value fs2 y = fat_value fs y"
  proof
    fix y assume y: "y \<in> set xs"
    show "fat_value fs2 y = fat_value fs y"
    proof (rule fat_value_frame [OF g2'], rule ballI)
      fix a assume "a \<in> set (fat_entry_addrs fs y)"
      then have "a \<notin> set (fat_entry_addrs fs c)" using disj [OF y] by auto
      then show "fs_byte fs2 a = fs_byte fs a" by (simp add: b2')
    qed
  qed
  have tl2: "read_chain fs2 (fat_value fs c) xs"
    using tl read_chain_cong [OF g2' same] by simp
  from Cons.IH [OF ok2 tl2] obtain fs' where
    fr: "fat_cluster_chain_free fs2 (fat_value fs c) = Some fs'" and ok': "vol_ok fs'"
    and g': "geometry fs' = geometry fs2"
    and b': "\<And>a. fs_byte fs' a
               = (if a \<in> (\<Union>x \<in> set xs. set (fat_entry_addrs fs2 x)) then 0 else fs_byte fs2 a)"
    by blast
  have run: "fat_cluster_chain_free fs c = Some fs'"
    using nl get set fr by (subst fat_cluster_chain_free.simps) simp
  have "fs_byte fs' a
        = (if a \<in> (\<Union>x \<in> set (x # xs). set (fat_entry_addrs fs x)) then 0 else fs_byte fs a)" for a
    using b' [of a] b2' [of a] by (simp add: ad2 xc)
  then show ?case using run ok' g' g2' by simp
qed

section \<open>Allocation and lookup keep the volume well-formed\<close>

lemma keeps_refl: "vol_ok fs \<Longrightarrow> keeps fs fs"
  by (simp add: keeps_def)

lemma keeps_trans: "keeps fs fs1 \<Longrightarrow> keeps fs1 fs2 \<Longrightarrow> keeps fs fs2"
  by (simp add: keeps_def)

lemma keeps_ok: "keeps fs fs1 \<Longrightarrow> vol_ok fs1"
  by (simp add: keeps_def)

lemma keeps_cache_read: "vol_ok fs \<Longrightarrow> keeps fs (snd (fat_sector_cache_read fs sec))"
  by (simp add: keeps_def)

lemma keeps_cache_write:
  "vol_ok fs \<Longrightarrow> keeps fs (snd (fat_sector_cache_write (fs\<lparr>sector_buffer := b\<rparr>) sec))"
  by (simp add: keeps_def vol_ok_def fat_sector_cache_write_def Let_def cache_valid_def)

lemma keeps_flush: "vol_ok fs \<Longrightarrow> keeps fs (fat_sector_cache_flush fs)"
  using vol_ok_geometry [of fs "fat_sector_cache_flush fs"] by (simp add: keeps_def vol_ok_def)

lemma fat_entry_get_keeps:
  assumes "vol_ok fs" and "fat_entry_get fs c = Some (v, fs1)"
  shows "keeps fs fs1"
  using assms(2) keeps_cache_read [OF assms(1)]
  by (simp add: fat_entry_get_value [OF assms(1)]) blast

lemma fat_entry_get_check_keeps:
  assumes "vol_ok fs" and "fat_entry_get_check fs c = Some (v, fs1)"
  shows "keeps fs fs1"
  using assms(2) fat_entry_get_keeps [OF assms(1)]
  by (auto simp: fat_entry_get_check_def split: Option.bind_splits if_splits)


lemma fat_entry_set_keeps:
  assumes ok: "vol_ok fs" and set: "fat_entry_set fs c v = Some fs1"
  shows "keeps fs fs1"
proof (cases "isFAT32 fs \<noteq> 0")
  case True
  from fat_entry_set_bytes32 [OF ok True, of c v] set show ?thesis
    by (auto simp: keeps_def)
next
  case False
  then have "isFAT32 fs = 0" by simp
  from fat_entry_set_bytes16 [OF ok this, of c v] set show ?thesis
    by (auto simp: keeps_def)
qed

lemma fat_cluster_free_find_keeps:
  "vol_ok fs \<Longrightarrow> fat_cluster_free_find fs c = Some (r, fs1) \<Longrightarrow> keeps fs fs1"
proof (induction fs c rule: fat_cluster_free_find.induct)
  case (1 fs c)
  show ?case
  proof (cases "c < num_clusters fs")
    case False
    then show ?thesis
      using 1(2,3) by (simp add: fat_cluster_free_find.simps [of fs c] keeps_refl)
  next
    case True
    obtain v fs0 where get: "fat_entry_get fs c = Some (v, fs0)"
      using 1(3) True
      by (auto simp: fat_cluster_free_find.simps [of fs c] split: option.splits)
    have k0: "keeps fs fs0" using 1(2) get by (rule fat_entry_get_keeps)
    show ?thesis
    proof (cases "fat_cluster_free_p v")
      case True
      then show ?thesis
        using 1(3) \<open>c < num_clusters fs\<close> get k0
        by (simp add: fat_cluster_free_find.simps [of fs c])
    next
      case False
      have "fat_cluster_free_find fs0 (c + 1) = Some (r, fs1)"
        using 1(3) \<open>c < num_clusters fs\<close> get False
        by (simp add: fat_cluster_free_find.simps [of fs c])
      from 1(1) [OF \<open>c < num_clusters fs\<close> get refl False keeps_ok [OF k0] this]
      show ?thesis using k0 by (rule keeps_trans [rotated])
    qed
  qed
qed

lemma fat_cluster_chain_append_keeps:
  assumes "vol_ok fs" and "fat_cluster_chain_append fs a b = Some (r, fs1)"
  shows "keeps fs fs1"
proof -
  from assms(2) obtain v fs0 where get: "fat_entry_get fs a = Some (v, fs0)"
    and set: "fat_entry_set fs0 a b = Some fs1"
    by (auto simp: fat_cluster_chain_append_def split: Option.bind_splits)
  have k0: "keeps fs fs0" using assms(1) get by (rule fat_entry_get_keeps)
  have "keeps fs0 fs1" using keeps_ok [OF k0] set by (rule fat_entry_set_keeps)
  with k0 show ?thesis by (rule keeps_trans)
qed

lemma fat_clusters_allocate_loop_keeps:
  "vol_ok fs \<Longrightarrow> fat_clusters_allocate_loop fs num cn cf = Some (r, fs') \<Longrightarrow> keeps fs fs'"
proof (induction fs num cn cf rule: fat_clusters_allocate_loop.induct)
  case (1 fs num cn cf)
  show ?case
  proof (cases "num \<noteq> 0")
    case False
    then show ?thesis
      using 1(2,3) by (subst (asm) fat_clusters_allocate_loop.simps) (simp add: keeps_refl)
  next
    case True
    obtain x fs1 where ff: "fat_cluster_free_find fs CLUST_FIRST = Some (x, fs1)"
      using 1(3) True
      by (auto simp: fat_clusters_allocate_loop.simps [of fs num] split: option.splits)
    have k1: "keeps fs fs1" using 1(2) ff by (rule fat_cluster_free_find_keeps)
    show ?thesis
    proof (cases "x = 0")
      case True
      then show ?thesis
        using 1(3) \<open>num \<noteq> 0\<close> ff k1
        by (simp add: fat_clusters_allocate_loop.simps [of fs num])
    next
      case False
      obtain fs2 where set: "fat_entry_set fs1 x CLUST_EOFE = Some fs2"
        using 1(3) \<open>num \<noteq> 0\<close> ff False
        by (auto simp: fat_clusters_allocate_loop.simps [of fs num] split: option.splits)
      have k2: "keeps fs1 fs2" using keeps_ok [OF k1] set by (rule fat_entry_set_keeps)
      obtain xa fs3 where ap: "(if cn \<noteq> 0 then fat_cluster_chain_append fs2 cn x
                                 else Some (x, fs2)) = Some (xa, fs3)"
        using 1(3) \<open>num \<noteq> 0\<close> ff False set
        by (auto simp: fat_clusters_allocate_loop.simps [of fs num] split: option.splits)
      have k3: "keeps fs2 fs3"
        using ap fat_cluster_chain_append_keeps [OF keeps_ok [OF k2]] keeps_refl [OF keeps_ok [OF k2]]
        by (auto split: if_splits)
      have rec: "fat_clusters_allocate_loop fs3 (num - 1) x (if cf = 0 then x else cf)
                 = Some (r, fs')"
        using 1(3) \<open>num \<noteq> 0\<close> ff False set ap
        by (simp add: fat_clusters_allocate_loop.simps [of fs num])
      have "keeps fs3 fs'"
        using 1(1) [OF \<open>num \<noteq> 0\<close> ff refl False set ap refl keeps_ok [OF k3] rec] .
      then show ?thesis using k1 k2 k3 by (blast intro: keeps_trans)
    qed
  qed
qed

lemma fat_clusters_allocate_keeps:
  "vol_ok fs \<Longrightarrow> fat_clusters_allocate fs cs sz = Some (r, fs') \<Longrightarrow> keeps fs fs'"
  using fat_clusters_allocate_loop_keeps
  by (auto simp: fat_clusters_allocate_def keeps_refl split: if_splits)

lemma fat_de_next_keeps:
  assumes ok: "vol_ok fs" and nx: "fat_de_next fs it = Some (de1, it1, fs1)"
  shows "keeps fs fs1"
proof (cases "it_offset it + 32 \<ge> bytes_per_sector fs")
  case False
  then show ?thesis using nx ok by (simp add: fat_de_next_def Let_def keeps_refl)
next
  case True
  define it2 where "it2 = it\<lparr>it_offset := 0, it_sector := it_sector it + 1\<rparr>"
  show ?thesis
  proof (cases "it_sector it2 \<ge> ucast (it_sectors it2)")
    case False
    then have "fs1 = snd (fat_sector_cache_read fs (it_sector it2))"
      using nx True by (auto simp: fat_de_next_def Let_def it2_def)
    then show ?thesis using ok by (simp add: keeps_cache_read)
  next
    case cross: True
    obtain cn fsa where get: "fat_entry_get_check fs (it_cluster it2) = Some (cn, fsa)"
      using nx True cross
      by (auto simp: fat_de_next_def Let_def it2_def split: Option.bind_splits)
    have ka: "keeps fs fsa" using ok get by (rule fat_entry_get_check_keeps)
    show ?thesis
    proof (cases "fat_cluster_last_p cn")
      case False
      then have "fs1 = snd (fat_sector_cache_read fsa (fat_sector_calc fsa cn))"
        using nx True cross get by (simp add: fat_de_next_def Let_def it2_def)
      then show ?thesis using ka keeps_cache_read [OF keeps_ok [OF ka]]
        by (auto intro: keeps_trans)
    next
      case last: True
      obtain c2 fsb where al: "fat_clusters_allocate fsa (it_cluster it2) 1 = Some (c2, fsb)"
        using nx True cross get last
        by (auto simp: fat_de_next_def Let_def it2_def split: Option.bind_splits)
      have kb: "keeps fsa fsb" using keeps_ok [OF ka] al by (rule fat_clusters_allocate_keeps)
      define buf1 where
        "buf1 = (\<lambda>i. if i < FAT_SECTOR_SIZE then 0 else sector_buffer fsb i)(0 := SLOT_EMPTY)"
      define fsc where
        "fsc = snd (fat_sector_cache_write (fsb\<lparr>sector_buffer := buf1\<rparr>) (fat_sector_calc fsb c2))"
      have kc: "keeps fsb fsc"
        unfolding fsc_def by (rule keeps_cache_write [OF keeps_ok [OF kb]])
      have "fs1 = snd (fat_sector_cache_read fsc (fat_sector_calc fsc c2))"
        using nx True cross get last al
        by (simp add: fat_de_next_def Let_def it2_def fsc_def buf1_def)
      then have "keeps fsc fs1" using keeps_cache_read [OF keeps_ok [OF kc]] by simp
      then show ?thesis using ka kb kc by (blast intro: keeps_trans)
    qed
  qed
qed

lemma fat_dir_search_loop_keeps_aux:
  assumes "fat_dir_search_loop name fs it de ff lm = Some y"
  shows "vol_ok fs \<longrightarrow> keeps fs (snd (snd y))"
proof (rule fat_dir_search_loop.raw_induct
         [where P = "\<lambda>name fs it de ff lm y. vol_ok fs \<longrightarrow> keeps fs (snd (snd y))", OF _ assms],
       goal_cases)
  case (1 loop name fs it de ff lm y)
  show ?case
  proof
    assume ok: "vol_ok fs"
    have step: "keeps fs (snd (snd y))"
      if nx: "fat_de_next fs it = Some (de1, it1, fs1)"
        and rec: "loop name fs1 it1 de1 ffx lmx = Some y"
      for de1 it1 fs1 ffx lmx
    proof -
      have k1: "keeps fs fs1" using ok nx by (rule fat_de_next_keeps)
      have "keeps fs1 (snd (snd y))" using 1(1) [OF rec] keeps_ok [OF k1] by simp
      with k1 show ?thesis by (rule keeps_trans)
    qed
    show "keeps fs (snd (snd y))"
      using 1(2) ok step
      by (auto simp: Let_def keeps_refl split: if_splits Option.bind_splits)
  qed
qed

lemma fat_dir_search_loop_keeps:
  "fat_dir_search_loop name fs it de ff lm = Some (found, ff', fs') \<Longrightarrow> vol_ok fs \<Longrightarrow> keeps fs fs'"
  using fat_dir_search_loop_keeps_aux [of name fs it de ff lm "(found, ff', fs')"] by simp

lemma fat_dir_search_keeps:
  assumes "fat_dir_search fs dc name ff = Some (found, ff', fs')" and "vol_ok fs"
  shows "keeps fs fs'"
proof -
  let ?fs1 = "snd (fat_sector_cache_read fs (fat_sector_calc fs dc))"
  have k1: "keeps fs ?fs1" using assms(2) by (rule keeps_cache_read)
  from assms(1) obtain it de ffx where
    "fat_dir_search_loop name ?fs1 it de ffx False = Some (found, ff', fs')"
    by (auto simp: fat_dir_search_def fat_de_first_def Let_def)
  then have "keeps ?fs1 fs'" using keeps_ok [OF k1] by (rule fat_dir_search_loop_keeps)
  with k1 show ?thesis by (rule keeps_trans)
qed

lemma fat_search_loop_keeps:
  "fat_search_loop fs p ff = Some (found, ff', fs') \<Longrightarrow> vol_ok fs \<Longrightarrow> keeps fs fs'"
proof (induction fs p ff rule: fat_search_loop.induct)
  case (1 fs p ff)
  show ?case
  proof (cases "p = []")
    case True
    then show ?thesis
      using 1(3,4) by (subst (asm) fat_search_loop.simps) (simp add: keeps_refl)
  next
    case False
    define tmp where "tmp = takeWhile (\<lambda>c. c \<noteq> 0x2f) p"
    define p1 where "p1 = dropWhile (\<lambda>c. c \<noteq> 0x2f) p"
    note unf = fat_search_loop.simps [of fs p ff] Let_def tmp_def [symmetric] p1_def [symmetric]
    have len: "\<not> FAT_MAXLEN_USE \<le> length tmp"
      using 1(3) False by (auto simp: unf split: if_splits)
    show ?thesis
    proof (cases "tmp = []")
      case True
      then show ?thesis using 1(3,4) False len by (simp add: unf keeps_refl)
    next
      case ne: False
      obtain fd ff1 fs1 where ds: "fat_dir_search fs (parent_dir_cluster ff) tmp ff = Some (fd, ff1, fs1)"
        using 1(3) False len ne by (auto simp: unf split: option.splits)
      have k1: "keeps fs fs1" using ds 1(4) by (rule fat_dir_search_keeps)
      show ?thesis
      proof (cases "fd \<and> (p1 \<noteq> [] \<longrightarrow> isdir ff1)")
        case False
        then have "fs' = fs1"
          using 1(3) \<open>p \<noteq> []\<close> len ne ds by (auto simp: unf split: if_splits)
        then show ?thesis using k1 by simp
      next
        case True
        show ?thesis
        proof (cases "p1 \<noteq> []")
          case True
          have rec: "fat_search_loop fs1 (tl p1)
                       (if tl p1 \<noteq> [] then ff1\<lparr>parent_dir_cluster := ff_cluster ff1\<rparr> else ff1)
                     = Some (found, ff', fs')"
            using 1(3) \<open>p \<noteq> []\<close> len ne ds \<open>fd \<and> (p1 \<noteq> [] \<longrightarrow> isdir ff1)\<close> True
            by (simp add: unf)
          have "keeps fs1 fs'"
            using 1(1) [OF \<open>p \<noteq> []\<close> tmp_def p1_def len ne ds refl refl _ True _ rec keeps_ok [OF k1]]
              \<open>fd \<and> (p1 \<noteq> [] \<longrightarrow> isdir ff1)\<close> True by simp
          with k1 show ?thesis by (rule keeps_trans)
        next
          case e: False
          have rec: "fat_search_loop fs1 p1 ff1 = Some (found, ff', fs')"
            using 1(3) \<open>p \<noteq> []\<close> len ne ds \<open>fd \<and> (p1 \<noteq> [] \<longrightarrow> isdir ff1)\<close> e
            by (simp add: unf)
          have "keeps fs1 fs'"
            using 1(2) [OF \<open>p \<noteq> []\<close> tmp_def p1_def len ne ds refl refl _ e rec keeps_ok [OF k1]]
              \<open>fd \<and> (p1 \<noteq> [] \<longrightarrow> isdir ff1)\<close> by simp
          with k1 show ?thesis by (rule keeps_trans)
        qed
      qed
    qed
  qed
qed

lemma fat_search_keeps:
  assumes "fat_search fs pathname ff = Some (found, ff', fs')" and "vol_ok fs"
  shows "keeps fs fs'"
  using assms fat_search_loop_keeps
  by (auto simp: fat_search_def keeps_refl split: option.splits if_splits)

section \<open>Opening with truncation (C2)\<close>

lemma fat_size_set_view:
  assumes ok: "vol_ok fs" and room: "unat (de_offset fat) + 32 \<le> unat (bytes_per_sector fs)"
  shows "vol_ok (fat_size_set fs fat sz) \<and> geometry (fat_size_set fs fat sz) = geometry fs
         \<and> dirty (fat_size_set fs fat sz)
         \<and> fs_byte (fat_size_set fs fat sz) = (fs_byte fs)
              (de_addr fs (de_sector fat) (de_offset fat) + 28 := conv_uchar sz 0,
               de_addr fs (de_sector fat) (de_offset fat) + 29 := conv_uchar sz 1,
               de_addr fs (de_sector fat) (de_offset fat) + 30 := conv_uchar sz 2,
               de_addr fs (de_sector fat) (de_offset fat) + 31 := conv_uchar sz 3)"
proof -
  let ?B = "ucast (bytes_per_sector fs) :: u32"
  let ?sec = "de_sector fat"
  let ?fs1 = "snd (fat_sector_cache_read fs ?sec)"
  define de where "de = unat (de_offset fat)"
  have cv: "cache_valid fs" using ok by (simp add: vol_ok_def)
  have addr: "?sec * ?B + of_nat (de + k) = de_addr fs ?sec (de_offset fat) + of_nat k" for k
    by (simp add: de_addr_def de_def add.assoc)
  have a28: "?sec * ?B + (of_nat de + 28) = de_addr fs ?sec (de_offset fat) + 28"
    using addr [of 28] by simp
  have a29: "?sec * ?B + (of_nat de + 29) = de_addr fs ?sec (de_offset fat) + 29"
    using addr [of 29] by simp
  have a30: "?sec * ?B + (of_nat de + 30) = de_addr fs ?sec (de_offset fat) + 30"
    using addr [of 30] by simp
  have a31: "?sec * ?B + (of_nat de + 31) = de_addr fs ?sec (de_offset fat) + 31"
    using addr [of 31] by simp
  have eq: "fat_size_set fs fat sz
            = snd (fat_sector_cache_write
                    (?fs1\<lparr>sector_buffer := (sector_buffer ?fs1)
                       (de + 28 := conv_uchar sz 0, de + 29 := conv_uchar sz 1,
                        de + 30 := conv_uchar sz 2, de + 31 := conv_uchar sz 3)\<rparr>) ?sec)"
    by (simp add: fat_size_set_def Let_def de_file_size_update_def de_def)
  have r: "de + 31 < unat (bytes_per_sector fs)" using room by (simp add: de_def)
  have "fs_byte (fat_size_set fs fat sz) = (fs_byte fs)
              (de_addr fs (de_sector fat) (de_offset fat) + 28 := conv_uchar sz 0,
               de_addr fs (de_sector fat) (de_offset fat) + 29 := conv_uchar sz 1,
               de_addr fs (de_sector fat) (de_offset fat) + 30 := conv_uchar sz 2,
               de_addr fs (de_sector fat) (de_offset fat) + 31 := conv_uchar sz 3)"
    unfolding eq using r cv
    by (simp add: fs_byte_cache_write fs_byte_buffer_upd_gen a28 a29 a30 a31)
  moreover have "vol_ok (fat_size_set fs fat sz)"
    unfolding eq using keeps_cache_write [OF vol_ok_cache_read [OF ok]] by (simp add: keeps_def)
  moreover have "geometry (fat_size_set fs fat sz) = geometry fs"
    unfolding eq by simp
  moreover have "dirty (fat_size_set fs fat sz)"
    unfolding eq by (simp add: fat_sector_cache_write_def Let_def)
  ultimately show ?thesis by blast
qed

lemma size_field_addrs_geometry:
  "geometry fs1 = geometry fs \<Longrightarrow> size_field_addrs fs1 = size_field_addrs fs"
  using geometry_fields [of fs1 fs] by (simp add: fun_eq_iff size_field_addrs_def de_addr_def)


text \<open>
  What \<^verbatim>\<open>fat_open\<close> does with \<^verbatim>\<open>O_TRUNC\<close> and a write-capable mode, for every
  existing file on a well-formed volume (the lookup of the pathname finds it, it is not
  a directory, and its directory slot lies within the sector): the handle returned has
  the size 0, and the four bytes of the field \<^verbatim>\<open>file_size\<close> of the file's directory
  slot read 0 in the sector cache, which is dirty on return.  That is all: no other
  byte of the volume differs from what the lookup left, so every FAT entry that does
  not share a byte with that field is stored as before.
\<close>

lemma fat_open_trunc_only_zeroes_size:
  assumes chk: "fat_fs_check_p fs" and ok: "vol_ok fs"
    and found: "fat_search fs (Some p) ff_init = Some (True, ff, fs1)"
    and nd: "\<not> isdir ff"
    and room: "unat (ff_de_offset ff) + 32 \<le> unat (bytes_per_sector fs)"
    and tr: "md AND O_TRUNC fl \<noteq> 0"
    and wr: "md AND O_RDWR fl \<noteq> 0 \<or> md AND O_WRONLY fl \<noteq> 0"
  shows "\<exists>f fs'. fat_open fl fs (Some p) md = Some (Inr f, fs')
           \<and> file_size f = 0 \<and> start_cluster f = ff_cluster ff
           \<and> vol_ok fs' \<and> dirty fs'
           \<and> (\<forall>a. fs_byte fs' a
                  = (if a \<in> set (size_field_addrs fs (ff_de_sector ff) (ff_de_offset ff))
                     then 0 else fs_byte fs1 a))
           \<and> (\<forall>c. set (fat_entry_addrs fs c)
                      \<inter> set (size_field_addrs fs (ff_de_sector ff) (ff_de_offset ff)) = {}
                    \<longrightarrow> fat_entry_disk fs' c = fat_entry_disk fs1 c)"
proof -
  define fat0 where
    "fat0 = \<lparr>mode = md, file_offset = 0, file_size = 0, start_cluster = 0,
              cluster = 0, de_sector = 0, de_offset = 0\<rparr>"
  define fat1 where
    "fat1 = fat0\<lparr>start_cluster := ff_cluster ff, cluster := ff_cluster ff,
                  file_offset := 0, file_size := de_file_size (ff_de ff) 0,
                  de_sector := ff_de_sector ff, de_offset := ff_de_offset ff\<rparr>"
  define fat2 where "fat2 = fat1\<lparr>file_size := 0\<rparr>"
  define fs2 where "fs2 = fat_size_set fs1 fat2 0"
  define f where "f = (if md AND O_APPEND fl \<noteq> 0
                       then (fat2\<lparr>file_offset := 0\<rparr>)\<lparr>file_offset := file_size (fat2\<lparr>file_offset := 0\<rparr>)\<rparr>
                       else fat2\<lparr>file_offset := 0\<rparr>)"
  have ne: "p \<noteq> []" using found by (auto simp: fat_search_def)
  have k: "keeps fs fs1" using found ok by (rule fat_search_keeps)
  have ok1: "vol_ok fs1" and g1: "geometry fs1 = geometry fs"
    using k by (simp_all add: keeps_def)
  have bps: "bytes_per_sector fs1 = bytes_per_sector fs"
    using geometry_fields [OF g1] by simp
  have find: "fat_find fs fat0 (Some p) ff_init = Some (Some fat1, ff, fs1)"
    using found by (simp add: fat_find_def fat1_def)
  have run: "fat_open fl fs (Some p) md = Some (Inr f, fs2)"
    using chk ne find nd tr wr
    by (simp add: fat_open_def fat0_def [symmetric] Let_def fat2_def fs2_def f_def)
  have room1: "unat (de_offset fat2) + 32 \<le> unat (bytes_per_sector fs1)"
    using room by (simp add: fat2_def fat1_def bps)
  note v = fat_size_set_view [OF ok1 room1, of 0, folded fs2_def]
  have ds: "de_sector fat2 = ff_de_sector ff" "de_offset fat2 = ff_de_offset ff"
    by (simp_all add: fat2_def fat1_def)
  have sf: "size_field_addrs fs1 = size_field_addrs fs"
    by (rule size_field_addrs_geometry [OF g1])
  have g2: "geometry fs2 = geometry fs1" using v by simp
  have bytes: "fs_byte fs2 a
        = (if a \<in> set (size_field_addrs fs (ff_de_sector ff) (ff_de_offset ff))
           then 0 else fs_byte fs1 a)" for a
    using v by (simp add: ds sf [symmetric] size_field_addrs_def Let_def)
  have frame: "fat_entry_disk fs2 c = fat_entry_disk fs1 c"
    if "set (fat_entry_addrs fs c)
          \<inter> set (size_field_addrs fs (ff_de_sector ff) (ff_de_offset ff)) = {}" for c
  proof (rule fat_entry_disk_frame [OF g2], rule ballI)
    fix a assume "a \<in> set (fat_entry_addrs fs1 c)"
    then have "a \<in> set (fat_entry_addrs fs c)"
      by (simp add: fat_entry_addrs_geometry [OF g1])
    then have "a \<notin> set (size_field_addrs fs (ff_de_sector ff) (ff_de_offset ff))"
      using that by auto
    then show "fs_byte fs2 a = fs_byte fs1 a" by (simp add: bytes)
  qed
  have "file_size f = 0" "start_cluster f = ff_cluster ff"
    by (simp_all add: f_def fat2_def fat1_def)
  then show ?thesis using run v bytes frame by blast
qed


text \<open>At the small volume: \<^verbatim>\<open>note.txt\<close> opened with \<^verbatim>\<open>O_TRUNC | O_RDWR\<close>.\<close>

lemma fat_open_trunc_only_zeroes_size_vol:
  "\<exists>f fs'. fat_open newlib_fcntl vol (Some note_txt) 0x0402 = Some (Inr f, fs')
      \<and> file_size f = 0 \<and> start_cluster f = 3 \<and> vol_ok fs' \<and> dirty fs'"
proof -
  have "case fat_search vol (Some note_txt) ff_init of
          Some (found, ff, fs1) \<Rightarrow>
            found \<and> \<not> isdir ff \<and> ff_de_offset ff = 32 \<and> ff_cluster ff = 3
        | None \<Rightarrow> False"
    by code_simp
  then obtain ff fs1 where s: "fat_search vol (Some note_txt) ff_init = Some (True, ff, fs1)"
    and f: "\<not> isdir ff" "ff_de_offset ff = 32" "ff_cluster ff = 3"
    by (auto split: option.splits)
  have ok: "vol_ok vol"
    by (simp add: vol_ok_def cache_valid_def vol_def FAT_SECTOR_SIZE_def)
  have chk: "fat_fs_check_p vol" by (simp add: fat_fs_check_p_def vol_def)
  have room: "unat (ff_de_offset ff) + 32 \<le> unat (bytes_per_sector vol)"
    using f by (simp add: vol_def)
  have tr: "(0x0402 :: u32) AND O_TRUNC newlib_fcntl \<noteq> 0"
    and wr: "(0x0402 :: u32) AND O_RDWR newlib_fcntl \<noteq> 0
             \<or> (0x0402 :: u32) AND O_WRONLY newlib_fcntl \<noteq> 0"
    by (simp_all add: newlib_fcntl_def)
  from fat_open_trunc_only_zeroes_size [OF chk ok s f(1) room tr wr] show ?thesis
    using f(3) by auto
qed

text \<open>
  C2: after the open of an existing file with \<^verbatim>\<open>O_TRUNC\<close> and a write-capable mode
  the size of the file is 0 and every cluster of its former chain is free.
  \<^verbatim>\<open>fat_open\<close> sets the size to 0 and calls \<^verbatim>\<open>fat_size_set\<close>; it never calls
  \<^verbatim>\<open>fat_cluster_chain_free\<close>, and it returns without
  \<^verbatim>\<open>fat_sector_cache_flush\<close>.  On the small volume \<^verbatim>\<open>note.txt\<close> owns the clusters
  3 and 4, whose entries are 4 and an end of chain.  After the open with
  \<^verbatim>\<open>O_TRUNC | O_RDWR\<close> the handle has the size 0 and still starts at cluster 3; the
  entry of cluster 3 is still 4 and the entry of cluster 4 still an end of chain,
  neither is free; and nothing has been written to the device, where the directory slot
  still records the size 600.
\<close>

theorem fat_open_trunc_keeps_chain:
  "case fat_open newlib_fcntl vol (Some note_txt) 0x0402 of
     Some (Inr f, fs') \<Rightarrow>
       file_size f = 0 \<and> start_cluster f = 3
       \<and> fat_entry_spec vol 3 = 4 \<and> fat_entry_spec vol 4 = CLUST_EOFS
       \<and> fat_entry_spec fs' 3 = 4 \<and> fat_entry_spec fs' 4 = CLUST_EOFS
       \<and> \<not> fat_cluster_free_p (fat_entry_spec fs' 3)
       \<and> \<not> fat_cluster_free_p (fat_entry_spec fs' 4)
       \<and> dirty fs' \<and> dev_writes fs' = 0
       \<and> de_file_size (\<lambda>i. dev_mem fs' (of_nat i)) 1568 = 600
   | _ \<Rightarrow> False"
  by code_simp

text \<open>So the open succeeds and leaves both clusters of the former chain allocated.\<close>

theorem fat_open_trunc_keeps_chain_witness:
  "\<exists>f fs'. fat_open newlib_fcntl vol (Some note_txt) 0x0402 = Some (Inr f, fs')
      \<and> file_size f = 0
      \<and> \<not> fat_cluster_free_p (fat_entry_spec fs' 3)
      \<and> \<not> fat_cluster_free_p (fat_entry_spec fs' 4)
      \<and> de_file_size (\<lambda>i. dev_mem fs' (of_nat i)) 1568 = 600"
proof -
  note t = fat_open_trunc_keeps_chain
  obtain r fs' where o: "fat_open newlib_fcntl vol (Some note_txt) 0x0402 = Some (r, fs')"
    using t by (cases "fat_open newlib_fcntl vol (Some note_txt) 0x0402") auto
  obtain f where r: "r = Inr f"
    using t o by (cases r) auto
  show ?thesis using t o r by auto
qed

section \<open>Pathnames with an empty component (C10)\<close>

lemma double_slash_rest:
  assumes "double_slash p" and "takeWhile (\<lambda>c. c \<noteq> 0x2f) p \<noteq> []"
  shows "dropWhile (\<lambda>c. c \<noteq> 0x2f) p \<noteq> []
         \<and> empty_component (tl (dropWhile (\<lambda>c. c \<noteq> 0x2f) p))"
  using assms
proof (induction p rule: double_slash.induct)
  case (1 a b cs)
  have a: "a \<noteq> 0x2f" using 1(3) by (auto split: if_splits)
  show ?case
  proof (cases "b = 0x2f")
    case True
    have "double_slash (b # cs) \<Longrightarrow> empty_component cs"
      using True by (cases cs) (auto simp: empty_component_def)
    then show ?thesis using a True 1(2) by (auto simp: empty_component_def)
  next
    case False
    then have "double_slash (b # cs)" using 1(2) a by simp
    moreover have "takeWhile (\<lambda>c. c \<noteq> 0x2f) (b # cs) \<noteq> []" using False by simp
    ultimately show ?thesis using 1(1) a by simp
  qed
qed simp_all

lemma fat_search_loop_empty_component:
  "fat_search_loop fs p ff = Some (found, ff', fs') \<Longrightarrow> empty_component p \<Longrightarrow> \<not> found"
proof (induction fs p ff rule: fat_search_loop.induct)
  case (1 fs p ff)
  define tmp where "tmp = takeWhile (\<lambda>c. c \<noteq> 0x2f) p"
  define p1 where "p1 = dropWhile (\<lambda>c. c \<noteq> 0x2f) p"
  note unf = fat_search_loop.simps [of fs p ff] Let_def tmp_def [symmetric] p1_def [symmetric]
  have ne: "p \<noteq> []" using 1(4) by (auto simp: empty_component_def)
  have len: "\<not> FAT_MAXLEN_USE \<le> length tmp"
    using 1(3) ne by (auto simp: unf split: if_splits)
  show ?case
  proof (cases "tmp = []")
    case True
    then show ?thesis using 1(3) ne len by (simp add: unf)
  next
    case False
    have "\<not> (p \<noteq> [] \<and> hd p = 0x2f)"
      using False by (cases p) (auto simp: tmp_def)
    then have ds: "double_slash p" using 1(4) by (auto simp: empty_component_def)
    have p1: "p1 \<noteq> []" and ec: "empty_component (tl p1)"
      using double_slash_rest [OF ds] False by (simp_all add: tmp_def p1_def)
    obtain fd ff1 fs1 where
      s: "fat_dir_search fs (parent_dir_cluster ff) tmp ff = Some (fd, ff1, fs1)"
      using 1(3) ne len False by (auto simp: unf split: option.splits)
    show ?thesis
    proof (cases "fd \<and> isdir ff1")
      case False
      then show ?thesis using 1(3) ne len \<open>tmp \<noteq> []\<close> s p1 by (auto simp: unf split: if_splits)
    next
      case True
      have rec: "fat_search_loop fs1 (tl p1)
                   (if tl p1 \<noteq> [] then ff1\<lparr>parent_dir_cluster := ff_cluster ff1\<rparr> else ff1)
                 = Some (found, ff', fs')"
        using 1(3) ne len \<open>tmp \<noteq> []\<close> s p1 True by (simp add: unf)
      show ?thesis
        using 1(1) [OF ne tmp_def p1_def len \<open>tmp \<noteq> []\<close> s refl refl _ p1 _ rec ec] True
        by simp
    qed
  qed
qed

lemma fat_search_bad:
  assumes bad: "bad_pathname pathname" and s: "fat_search fs pathname ff = Some (found, ff', fs')"
  shows "\<not> found"
proof (cases pathname)
  case None
  then show ?thesis using s by (simp add: fat_search_def)
next
  case (Some p)
  show ?thesis
  proof (cases "p = []")
    case True
    then show ?thesis using s Some by (simp add: fat_search_def)
  next
    case False
    then have "empty_component p" using bad Some by (simp add: bad_pathname_def)
    moreover have "fat_search_loop fs p (ff\<lparr>parent_dir_cluster := root_dir_cluster fs\<rparr>)
                   = Some (found, ff', fs')"
      using s Some False by (simp add: fat_search_def)
    ultimately show ?thesis by (rule fat_search_loop_empty_component [rotated])
  qed
qed

lemma fat_search_immediate:
  assumes "immediate_pathname pathname"
  shows "\<exists>ff'. fat_search fs pathname ff = Some (False, ff', fs)"
proof (cases pathname)
  case None
  then show ?thesis by (simp add: fat_search_def)
next
  case (Some p)
  show ?thesis
  proof (cases "p = []")
    case True
    then show ?thesis using Some by (simp add: fat_search_def)
  next
    case False
    then obtain q where p: "p = 0x2f # q"
      using assms Some by (cases p) (auto simp: immediate_pathname_def)
    show ?thesis
      using Some p
      by (simp add: fat_search_def fat_search_loop.simps [of fs "0x2f # q"] FAT_MAXLEN_USE_def)
  qed
qed

lemma fat_open_null:
  "pathname = None \<or> pathname = Some [] \<Longrightarrow> \<exists>e. fat_open fl fs pathname md = Some (Inl e, fs)"
  by (auto simp: fat_open_def)

lemma fat_open_not_found:
  assumes "fat_search fs (Some p) ff_init = Some (False, ff', fs1)"
    and "md AND O_CREAT fl = 0"
  shows "\<exists>e. fat_open fl fs (Some p) md = Some (Inl e, if fat_fs_check_p fs \<and> p \<noteq> [] then fs1 else fs)"
  using assms by (simp add: fat_open_def fat_find_def Let_def)

lemma fat_open_search:
  assumes "fat_open fl fs (Some p) md = Some (r, fs')" and "fat_fs_check_p fs" and "p \<noteq> []"
  shows "\<exists>found ff' fs1. fat_search fs (Some p) ff_init = Some (found, ff', fs1)"
proof (cases "fat_search fs (Some p) ff_init")
  case None
  then have "fat_open fl fs (Some p) md = None"
    using assms(2,3) by (simp add: fat_open_def fat_find_def Let_def)
  then show ?thesis using assms(1) by simp
next
  case (Some x)
  then show ?thesis by (cases x) auto
qed


text \<open>
  Where \<^verbatim>\<open>fat_unlink\<close> and \<^verbatim>\<open>fat_open\<close> do fail on such a pathname.  With a null
  pathname, an empty pathname or a pathname that starts with a slash they return
  at once: \<^verbatim>\<open>fat_unlink\<close> with \<^verbatim>\<open>ENOENT\<close> and \<^verbatim>\<open>fat_open\<close>, unless the mode has
  \<^verbatim>\<open>O_CREAT\<close> and the pathname is neither null nor empty, with a null handle; the
  volume, the cache and the device are exactly as before.  With an empty component
  further on, the components before it are looked up first; when that lookup ends,
  the result is the same failure, provided the mode has no \<^verbatim>\<open>O_CREAT\<close>.
\<close>

lemma fat_bad_pathname_fails:
  assumes bad: "bad_pathname pathname"
    and nc: "md AND O_CREAT fl = 0 \<or> pathname = None \<or> pathname = Some []"
  shows "(\<forall>r fs'. fat_unlink fs pathname = Some (r, fs') \<longrightarrow> r = Inl ENOENT)
       \<and> (\<forall>r fs'. fat_open fl fs pathname md = Some (r, fs') \<longrightarrow> (\<exists>e. r = Inl e))
       \<and> (immediate_pathname pathname \<longrightarrow>
            fat_unlink fs pathname = Some (Inl ENOENT, fs)
            \<and> (\<exists>e. fat_open fl fs pathname md = Some (Inl e, fs)))"
proof (intro conjI allI impI)
  fix r fs'
  assume u: "fat_unlink fs pathname = Some (r, fs')"
  then obtain found ff' fs1 where s: "fat_search fs pathname ff_init = Some (found, ff', fs1)"
    by (cases "fat_search fs pathname ff_init") (auto simp: fat_unlink_def)
  have "\<not> found" using bad s by (rule fat_search_bad)
  then show "r = Inl ENOENT" using u s by (simp add: fat_unlink_def)
next
  fix r fs'
  assume o: "fat_open fl fs pathname md = Some (r, fs')"
  show "\<exists>e. r = Inl e"
  proof (cases "pathname = None \<or> pathname = Some []")
    case True
    from fat_open_null [OF this, of fl fs md] o show ?thesis by auto
  next
    case False
    then obtain p where p: "pathname = Some p" "p \<noteq> []" by (cases pathname) auto
    have c: "md AND O_CREAT fl = 0" using nc False by simp
    show ?thesis
    proof (cases "fat_fs_check_p fs")
      case False
      then show ?thesis using o by (auto simp: fat_open_def)
    next
      case True
      from fat_open_search [OF o [unfolded p(1)] True p(2)] obtain found ff' fs1 where
        s: "fat_search fs (Some p) ff_init = Some (found, ff', fs1)" by blast
      have "\<not> found" using bad s unfolding p(1) by (rule fat_search_bad)
      with s have "fat_search fs (Some p) ff_init = Some (False, ff', fs1)" by simp
      from fat_open_not_found [OF this c] o show ?thesis unfolding p(1) by auto
    qed
  qed
next
  assume im: "immediate_pathname pathname"
  from fat_search_immediate [OF im, of fs ff_init] obtain ff' where
    s: "fat_search fs pathname ff_init = Some (False, ff', fs)" by blast
  then show "fat_unlink fs pathname = Some (Inl ENOENT, fs)"
    by (simp add: fat_unlink_def)
next
  assume im: "immediate_pathname pathname"
  from fat_search_immediate [OF im, of fs ff_init] obtain ff' where
    s: "fat_search fs pathname ff_init = Some (False, ff', fs)" by blast
  show "\<exists>e. fat_open fl fs pathname md = Some (Inl e, fs)"
  proof (cases "pathname = None \<or> pathname = Some []")
    case True
    then show ?thesis by (rule fat_open_null)
  next
    case False
    then obtain p where p: "pathname = Some p" "p \<noteq> []" by (cases pathname) auto
    have c: "md AND O_CREAT fl = 0" using nc False by simp
    from fat_open_not_found [OF s [unfolded p(1)] c] show ?thesis
      unfolding p(1) by (auto split: if_splits)
  qed
qed

text \<open>At the small volume, for the pathnames \<^verbatim>\<open>A//b\<close> and \<^verbatim>\<open>//b\<close> and the mode
  \<^verbatim>\<open>O_RDWR\<close>.\<close>

lemma fat_bad_pathname_fails_vol:
  "(\<exists>fs'. fat_unlink vol (Some [0x41, 0x2f, 0x2f, 0x62]) = Some (Inl ENOENT, fs'))
   \<and> (\<exists>e fs'. fat_open newlib_fcntl vol (Some [0x41, 0x2f, 0x2f, 0x62]) 0x0002 = Some (Inl e, fs'))
   \<and> fat_unlink vol (Some [0x2f, 0x2f, 0x62]) = Some (Inl ENOENT, vol)
   \<and> (\<exists>e. fat_open newlib_fcntl vol (Some [0x2f, 0x2f, 0x62]) 0x0002 = Some (Inl e, vol))"
proof -
  have b1: "bad_pathname (Some [0x41, 0x2f, 0x2f, 0x62])"
    and b2: "bad_pathname (Some [0x2f, 0x2f, 0x62])"
    and im: "immediate_pathname (Some [0x2f, 0x2f, 0x62])"
    by (simp_all add: bad_pathname_def immediate_pathname_def empty_component_def)
  have nc: "(0x0002 :: u32) AND O_CREAT newlib_fcntl = 0 \<or> pathname = None \<or> pathname = Some []"
    for pathname :: "cstring option"
    by (simp add: newlib_fcntl_def)
  have "fat_unlink vol (Some [0x41, 0x2f, 0x2f, 0x62]) \<noteq> None"
    by code_simp
  then obtain r1 fs1 where r1: "fat_unlink vol (Some [0x41, 0x2f, 0x2f, 0x62]) = Some (r1, fs1)"
    by (cases "fat_unlink vol (Some [0x41, 0x2f, 0x2f, 0x62])") auto
  have "fat_open newlib_fcntl vol (Some [0x41, 0x2f, 0x2f, 0x62]) 0x0002 \<noteq> None"
    by code_simp
  then obtain r2 fs2 where
    r2: "fat_open newlib_fcntl vol (Some [0x41, 0x2f, 0x2f, 0x62]) 0x0002 = Some (r2, fs2)"
    by (cases "fat_open newlib_fcntl vol (Some [0x41, 0x2f, 0x2f, 0x62]) 0x0002") auto
  note t1 = fat_bad_pathname_fails [OF b1 nc, of vol]
  note t2 = fat_bad_pathname_fails [OF b2 nc, of vol]
  have "r1 = Inl ENOENT" using t1 r1 by blast
  moreover have "\<exists>e. r2 = Inl e" using t1 r2 by blast
  moreover have "fat_unlink vol (Some [0x2f, 0x2f, 0x62]) = Some (Inl ENOENT, vol)"
    using t2 im by blast
  moreover have "\<exists>e. fat_open newlib_fcntl vol (Some [0x2f, 0x2f, 0x62]) 0x0002 = Some (Inl e, vol)"
    using t2 im by blast
  ultimately show ?thesis using r1 r2 by blast
qed

text \<open>
  C10: \<^verbatim>\<open>fat_open\<close> with a pathname that has an empty component fails, writes
  nothing to the device and leaves the volume as it was.  \<^verbatim>\<open>fat_search\<close> gives up at
  an empty component, but it leaves \<^verbatim>\<open>parent_dir_cluster\<close> set to the directory it
  has reached, where its other not-found path sets it to 0 when more of the pathname
  follows.  So with \<^verbatim>\<open>O_CREAT\<close> the open of \<^verbatim>\<open>A//b\<close> on the small volume does not
  fail: \<^verbatim>\<open>fat_create\<close> makes the file \<^verbatim>\<open>b\<close> in the directory \<^verbatim>\<open>A\<close>, allocating
  cluster 6, which was free, and writing the FAT sector and the directory sector
  (sector 6, byte address 3072) to the device.  The open of \<^verbatim>\<open>x//b\<close>, where no
  \<^verbatim>\<open>x\<close> exists, takes the other path and fails without a write.
\<close>

theorem fat_open_creat_empty_component:
  "(case fat_open newlib_fcntl vol (Some [0x41, 0x2f, 0x2f, 0x62]) 0x0202 of
      Some (Inr f, fs') \<Rightarrow>
        bad_pathname (Some [0x41, 0x2f, 0x2f, 0x62])
        \<and> start_cluster f = 6 \<and> de_sector f = 6 \<and> de_offset f = 0
        \<and> dev_writes vol = 0 \<and> dev_writes fs' = 2
        \<and> fat_entry_spec vol 6 = CLUST_FREE \<and> fat_entry_spec fs' 6 = CLUST_EOFS
        \<and> map (fs_byte vol) [3072, 3083] = [0, 0]
        \<and> map (fs_byte fs') [3072, 3083] = [0x42, ATTR_NORMAL]
    | _ \<Rightarrow> False)
   \<and> (case fat_open newlib_fcntl vol (Some [0x78, 0x2f, 0x2f, 0x62]) 0x0202 of
         Some (Inl e, fs') \<Rightarrow>
           bad_pathname (Some [0x78, 0x2f, 0x2f, 0x62]) \<and> e = None \<and> dev_writes fs' = 0
       | _ \<Rightarrow> False)"
  by code_simp

text \<open>So the open of \<^verbatim>\<open>A//b\<close> returns a handle and has written to the device.\<close>

theorem fat_open_creat_empty_component_witness:
  "\<exists>f fs'. fat_open newlib_fcntl vol (Some [0x41, 0x2f, 0x2f, 0x62]) 0x0202 = Some (Inr f, fs')
      \<and> start_cluster f = 6 \<and> dev_writes fs' = 2
      \<and> fat_entry_spec fs' 6 = CLUST_EOFS"
proof -
  note t = fat_open_creat_empty_component
  obtain r fs' where
    o: "fat_open newlib_fcntl vol (Some [0x41, 0x2f, 0x2f, 0x62]) 0x0202 = Some (r, fs')"
    using t by (cases "fat_open newlib_fcntl vol (Some [0x41, 0x2f, 0x2f, 0x62]) 0x0202") auto
  obtain f where r: "r = Inr f"
    using t o by (cases r) auto
  show ?thesis using t o r by auto
qed

section \<open>Freeing a chain (C5)\<close>

lemma fat_sector_calc_geometry:
  "geometry fs1 = geometry fs \<Longrightarrow> fat_sector_calc fs1 = fat_sector_calc fs"
  using geometry_fields [of fs1 fs] by (simp add: fun_eq_iff fat_sector_calc_def)

lemma de_next_iter_cong:
  assumes "geometry fs1 = geometry fs"
    and "fat_value fs1 (it_cluster it) = fat_value fs (it_cluster it)"
  shows "de_next_iter fs1 it = de_next_iter fs it"
  using assms(2) geometry_fields [OF assms(1)] fat_sector_calc_geometry [OF assms(1)]
  by (simp add: de_next_iter_def Let_def)

lemma de_next_view:
  assumes ok: "vol_ok fs" and sec: "sector fs = it_sector it"
    and nx: "de_next_iter fs it = Some it'"
  shows "\<exists>fs'. fat_de_next fs it = Some (unat (it_offset it'), it', fs') \<and> keeps fs fs'
           \<and> fs_byte fs' = fs_byte fs \<and> sector fs' = it_sector it'"
proof -
  have cv: "cache_valid fs" using ok by (simp add: vol_ok_def)
  show ?thesis
  proof (cases "it_offset it + 32 \<ge> bytes_per_sector fs")
    case False
    then have "it' = it\<lparr>it_offset := it_offset it + 32\<rparr>"
      using nx by (simp add: de_next_iter_def Let_def)
    then show ?thesis
      using False ok sec by (simp add: fat_de_next_def Let_def keeps_refl)
  next
    case True
    define it2 where "it2 = it\<lparr>it_offset := 0, it_sector := it_sector it + 1\<rparr>"
    show ?thesis
    proof (cases "it_sector it2 \<ge> ucast (it_sectors it2)")
      case False
      then have i: "it' = it2"
        using nx True unfolding it2_def by (simp add: de_next_iter_def Let_def)
      have "fat_de_next fs it
            = Some (unat (it_offset it2), it2, snd (fat_sector_cache_read fs (it_sector it2)))"
        using True False unfolding it2_def by (simp add: fat_de_next_def Let_def)
      then show ?thesis
        using ok cv by (simp add: i keeps_cache_read)
    next
      case cross: True
      have ic: "it_cluster it2 = it_cluster it" by (simp add: it2_def)
      define v where "v = fat_value fs (it_cluster it)"
      have nf: "\<not> fat_cluster_free_p v" and nl: "\<not> fat_cluster_last_p v"
        and i: "it' = it2\<lparr>it_cluster := v, it_sector := fat_sector_calc fs v\<rparr>"
        using nx True cross unfolding v_def it2_def
        by (simp_all add: de_next_iter_def Let_def split: if_splits)
      define fs1 where "fs1 = snd (fat_sector_cache_read fs (fat_entry_sector fs (it_cluster it)))"
      have get: "fat_entry_get_check fs (it_cluster it) = Some (v, fs1)"
        using nf by (simp add: fat_entry_get_check_value [OF ok] v_def fs1_def)
      have k1: "keeps fs fs1" unfolding fs1_def using ok by (rule keeps_cache_read)
      have b1: "fs_byte fs1 = fs_byte fs" unfolding fs1_def using cv by simp
      have c1: "fat_sector_calc fs1 = fat_sector_calc fs"
        using k1 fat_sector_calc_geometry [of fs1 fs] by (simp add: keeps_def)
      have "fat_de_next fs it
            = Some (unat (it_offset it'), it', snd (fat_sector_cache_read fs1 (it_sector it')))"
        using True cross get nl unfolding i it2_def
        by (simp add: fat_de_next_def Let_def c1)
      moreover have "keeps fs (snd (fat_sector_cache_read fs1 (it_sector it')))"
        using k1 keeps_cache_read [OF keeps_ok [OF k1]] by (rule keeps_trans)
      moreover have "fs_byte (snd (fat_sector_cache_read fs1 (it_sector it'))) = fs_byte fs"
        using keeps_ok [OF k1] b1 by (simp add: vol_ok_def)
      ultimately show ?thesis by simp
    qed
  qed
qed

lemma de_iter_addr_geometry:
  "geometry fs1 = geometry fs \<Longrightarrow> de_iter_addr fs1 = de_iter_addr fs"
  using geometry_fields [of fs1 fs] by (simp add: fun_eq_iff de_iter_addr_def de_addr_def)

lemma slot_buffer_byte:
  assumes "sector fs = it_sector it" and "unat (it_offset it) + k < unat (bytes_per_sector fs)"
  shows "sector_buffer fs (unat (it_offset it) + k) = fs_byte fs (de_iter_addr fs it + of_nat k)"
proof -
  have "sector_buffer fs (unat (it_offset it) + k)
        = fs_byte fs (sector fs * ucast (bytes_per_sector fs) + of_nat (unat (it_offset it) + k))"
    using assms(2) by (rule buffer_is_byte)
  also have "(of_nat (unat (it_offset it) + k) :: u32) = ucast (it_offset it) + of_nat k"
    by simp
  finally show ?thesis
    by (simp add: de_iter_addr_def de_addr_def assms(1) add.assoc)
qed

lemma scan_returns:
  assumes "vol_ok fs3" and "geometry fs3 = geometry fs"
    and "\<forall>a. a \<notin> set fr \<longrightarrow> fs_byte fs3 a = fs_byte fs a"
    and "sector fs3 = it_sector it"
    and "scan_finds fs fr ff it n"
  shows "\<exists>fs4. fat_unlink_scan fs3 ff it (unat (it_offset it)) = Some fs4
           \<and> geometry fs4 = geometry fs \<and> (\<forall>a \<in> set fr. fs_byte fs4 a = fs_byte fs3 a)"
  using assms
proof (induction n arbitrary: fs3 it)
  case 0
  note g = geometry_fields [OF 0(2)]
  have m: "ucast (it_offset it) = ff_de_offset ff \<and> it_sector it = ff_de_sector ff"
    and room: "unat (it_offset it) + 32 \<le> unat (bytes_per_sector fs)"
    and nfr: "de_iter_addr fs it \<notin> set fr" "de_iter_addr fs it + 11 \<notin> set fr"
    and nl: "fs_byte fs (de_iter_addr fs it + 11) AND ATTR_LONG_FILENAME \<noteq> ATTR_LONG_FILENAME"
    using 0(5) by simp_all
  have ad: "de_iter_addr fs3 it = de_iter_addr fs it"
    using de_iter_addr_geometry [OF 0(2)] by simp
  have "sector_buffer fs3 (unat (it_offset it) + 11) = fs_byte fs3 (de_iter_addr fs3 it + of_nat 11)"
    using room g by (intro slot_buffer_byte [OF 0(4)]) simp
  then have attr: "sector_buffer fs3 (unat (it_offset it) + 11) = fs_byte fs (de_iter_addr fs it + 11)"
    using 0(3) nfr by (simp add: ad)
  have nlfn: "\<not> fat_de_attr_long_filename_p (sector_buffer fs3) (unat (it_offset it))"
    using nl by (simp add: fat_de_attr_long_filename_p_def de_attributes_def attr)
  have mark: "fat_unlink_mark fs3 it (unat (it_offset it)) = Some (unat (it_offset it), it, fs3)"
    using nlfn by (subst fat_unlink_mark.simps) simp
  define fs4 where
    "fs4 = fat_sector_cache_flush
             (fs3\<lparr>sector_buffer := (sector_buffer fs3)(unat (it_offset it) := SLOT_DELETED)\<rparr>)"
  have lt: "unat (it_offset it) < unat (bytes_per_sector fs3)" using room g by simp
  have "sector fs3 * ucast (bytes_per_sector fs3) + of_nat (unat (it_offset it)) = de_iter_addr fs it"
    using g by (simp add: de_iter_addr_def de_addr_def 0(4))
  then have b4: "fs_byte fs4 = (fs_byte fs3)(de_iter_addr fs it := SLOT_DELETED)"
    unfolding fs4_def using fs_byte_buffer_upd [OF lt, of SLOT_DELETED] by simp
  have g4: "geometry fs4 = geometry fs" unfolding fs4_def using 0(2) by simp
  have fr4: "\<forall>a \<in> set fr. fs_byte fs4 a = fs_byte fs3 a"
    using nfr(1) by (auto simp: b4)
  show ?case
  proof (cases "fat_de_last_p (sector_buffer fs3) (unat (it_offset it))")
    case True
    then have "fat_unlink_scan fs3 ff it (unat (it_offset it)) = Some fs3"
      by (subst fat_unlink_scan.simps) simp
    then show ?thesis using 0(2) by simp
  next
    case False
    then have "fat_unlink_scan fs3 ff it (unat (it_offset it)) = Some fs4"
      using m mark by (subst fat_unlink_scan.simps) (simp add: fs4_def)
    then show ?thesis using g4 fr4 by simp
  qed
next
  case (Suc n)
  have nm: "\<not> (ucast (it_offset it) = ff_de_offset ff \<and> it_sector it = ff_de_sector ff)"
    and dis: "\<forall>a \<in> set (fat_entry_addrs fs (it_cluster it)). a \<notin> set fr"
    using Suc.prems(5) by simp_all
  obtain it' where nx: "de_next_iter fs it = Some it'" and rest: "scan_finds fs fr ff it' n"
    using Suc.prems(5) by (auto split: option.splits)
  show ?case
  proof (cases "fat_de_last_p (sector_buffer fs3) (unat (it_offset it))")
    case True
    then have "fat_unlink_scan fs3 ff it (unat (it_offset it)) = Some fs3"
      by (subst fat_unlink_scan.simps) simp
    then show ?thesis using Suc.prems(2) by simp
  next
    case False
    have "fat_value fs3 (it_cluster it) = fat_value fs (it_cluster it)"
    proof (rule fat_value_frame [OF Suc.prems(2)], rule ballI)
      fix a assume "a \<in> set (fat_entry_addrs fs (it_cluster it))"
      then have "a \<notin> set fr" using dis by simp
      then show "fs_byte fs3 a = fs_byte fs a" using Suc.prems(3) by simp
    qed
    then have nx3: "de_next_iter fs3 it = Some it'"
      using de_next_iter_cong [OF Suc.prems(2), of it] nx by simp
    from de_next_view [OF Suc.prems(1,4) nx3] obtain fs' where
      step: "fat_de_next fs3 it = Some (unat (it_offset it'), it', fs')" and k: "keeps fs3 fs'"
      and b: "fs_byte fs' = fs_byte fs3" and s': "sector fs' = it_sector it'"
      by blast
    have ok': "vol_ok fs'" and g': "geometry fs' = geometry fs"
      using k Suc.prems(2) by (simp_all add: keeps_def)
    have fr': "\<forall>a. a \<notin> set fr \<longrightarrow> fs_byte fs' a = fs_byte fs a"
      using Suc.prems(3) by (simp add: b)
    from Suc.IH [OF ok' g' fr' s' rest] obtain fs4 where
      r: "fat_unlink_scan fs' ff it' (unat (it_offset it')) = Some fs4"
      and g4: "geometry fs4 = geometry fs" and f4: "\<forall>a \<in> set fr. fs_byte fs4 a = fs_byte fs' a"
      by blast
    have "fat_unlink_scan fs3 ff it (unat (it_offset it)) = Some fs4"
      using False nm step r by (subst fat_unlink_scan.simps) auto
    then show ?thesis using g4 f4 b by simp
  qed
qed

lemma fat_entry_clear_free:
  assumes "fat_entry_clear fs x"
  shows "fat_cluster_free_p (fat_entry_spec fs x)"
proof (cases "isFAT32 fs \<noteq> 0")
  case True
  then show ?thesis
    using assms unfolding fat_entry_clear_def entry_addrs_32 [OF True]
    by (simp add: fat_entry_spec_def fat_entry_disk_def Let_def conv_ulong_def
          fat_cluster_free_p_def CLUST_FREE_def CLUST_EOFS_def FAT32_MASK_def)
next
  case False
  then have f16: "isFAT32 fs = 0" by simp
  then show ?thesis
    using assms unfolding fat_entry_clear_def entry_addrs_16 [OF f16]
    by (simp add: fat_entry_spec_def fat_entry_disk_def Let_def conv_ulong_def
          fat_cluster_free_p_def CLUST_FREE_def CLUST_EOFS_def FAT16_MASK_def)
qed

lemma chain_addrs_clear:
  assumes "geometry fs' = geometry fs" and "\<forall>a \<in> set (chain_addrs fs cs). fs_byte fs' a = 0"
    and "x \<in> set cs"
  shows "fat_entry_clear fs' x \<and> fat_cluster_free_p (fat_entry_spec fs' x)"
proof -
  have c: "fat_entry_clear fs' x"
    using assms(2,3) unfolding fat_entry_clear_def fat_entry_addrs_geometry [OF assms(1)]
    by (auto simp: chain_addrs_def)
  show ?thesis
    using c fat_entry_clear_free [OF c] by simp
qed

text \<open>\<^verbatim>\<open>fat_entry_get\<close> reads an entry as the spec does when the entry has no bit set
  above the mask and, for FAT16, the two bytes that it leaves unwritten are zero.\<close>

lemma fat_value_is_spec:
  assumes "isFAT32 fs \<noteq> 0 \<Longrightarrow> fat_entry_disk fs c AND FAT32_MASK = fat_entry_disk fs c"
    and "isFAT32 fs = 0 \<Longrightarrow> conv_init fs = 0"
  shows "fat_value fs c = fat_entry_spec fs c"
proof (cases "isFAT32 fs \<noteq> 0")
  case True
  have raw: "fat_raw fs c = fat_entry_disk fs c"
    using True by (simp add: fat_raw_def fat_entry_disk_def Let_def)
  show ?thesis
    using True assms(1)
    by (simp add: fat_value_def fat_interpret_def fat_entry_spec_def raw Let_def)
next
  case False
  then have f16: "isFAT32 fs = 0" by simp
  define d where "d = fat_entry_disk fs c"
  have raw: "fat_raw fs c = d"
    using f16 assms(2) by (simp add: fat_raw_def fat_entry_disk_def Let_def d_def)
  have "d AND FAT16_MASK = d"
  proof (rule bit_word_eqI)
    fix n :: nat
    assume "n < LENGTH(32)"
    have "bit d n \<Longrightarrow> n < 16"
      using f16 unfolding d_def fat_entry_disk_def Let_def conv_ulong_def
      by (auto simp: bit_simps dest: bit_imp_le_length)
    moreover have "bit FAT16_MASK n \<longleftrightarrow> n < 16"
    proof -
      have m: "FAT16_MASK = mask 16"
        by (simp add: FAT16_MASK_def mask_eq_exp_minus_1)
      show ?thesis unfolding m by (auto simp: bit_mask_iff)
    qed
    ultimately show "bit (d AND FAT16_MASK) n = bit d n"
      by (auto simp: bit_and_iff)
  qed
  then show ?thesis
    using f16
    by (simp add: fat_value_def fat_interpret_def fat_entry_spec_def raw Let_def
          d_def [symmetric])
qed

text \<open>
  Where the entries of the chain are read as the spec reads them, freeing does what
  C5 says.  On a well-formed volume, for every well-formed chain \<open>cs\<close> from \<open>c\<close> whose
  entries \<^verbatim>\<open>fat_entry_get\<close> reads as the spec does, \<^verbatim>\<open>fat_cluster_chain_free\<close>
  returns; afterwards every byte of the entry of every cluster of the chain reads
  zero, so the entry is free; and it stops there: no byte outside these entries
  changes.  And after the unlink of a file: if the lookup of the pathname finds a file
  whose first cluster is \<open>c\<close>, and the scan of the parent directory reaches the file's
  slot without extending the directory, \<^verbatim>\<open>fat_unlink\<close> returns 0 and every cluster of
  the chain is free.
\<close>

lemma fat_chain_free_clears:
  assumes ok: "vol_ok fs" and spec_chain: "is_chain fs c cs"
    and agree: "\<forall>x \<in> set cs. fat_value fs x = fat_entry_spec fs x"
  shows "(\<exists>fs'. fat_cluster_chain_free fs c = Some fs' \<and> vol_ok fs'
            \<and> (\<forall>x \<in> set cs. fat_entry_clear fs' x \<and> fat_cluster_free_p (fat_entry_spec fs' x))
            \<and> (\<forall>a. a \<notin> set (chain_addrs fs cs) \<longrightarrow> fs_byte fs' a = fs_byte fs a))
       \<and> (fat_search fs0 pathname ff_init = Some (True, ff, fs) \<and> \<not> isdir ff
            \<and> ff_cluster ff = c \<and> unlink_reaches fs ff cs n
          \<longrightarrow> (\<exists>fs''. fat_unlink fs0 pathname = Some (Inr 0, fs'')
                 \<and> (\<forall>x \<in> set cs. fat_entry_clear fs'' x
                        \<and> fat_cluster_free_p (fat_entry_spec fs'' x))))"
proof -
  have chain: "read_chain fs c cs" using spec_chain agree by (rule is_chain_read)
  from fat_cluster_chain_free_clears [OF ok chain] obtain fs2 where
    fr: "fat_cluster_chain_free fs c = Some fs2" and ok2: "vol_ok fs2"
    and g2: "geometry fs2 = geometry fs"
    and b2: "\<And>a. fs_byte fs2 a
               = (if a \<in> (\<Union>x \<in> set cs. set (fat_entry_addrs fs x)) then 0 else fs_byte fs a)"
    by blast
  have ca: "set (chain_addrs fs cs) = (\<Union>x \<in> set cs. set (fat_entry_addrs fs x))"
    by (simp add: chain_addrs_def)
  have z2: "\<forall>a \<in> set (chain_addrs fs cs). fs_byte fs2 a = 0"
    and s2: "\<forall>a. a \<notin> set (chain_addrs fs cs) \<longrightarrow> fs_byte fs2 a = fs_byte fs a"
    using b2 by (simp_all add: ca)
  have part1: "\<exists>fs'. fat_cluster_chain_free fs c = Some fs' \<and> vol_ok fs'
            \<and> (\<forall>x \<in> set cs. fat_entry_clear fs' x \<and> fat_cluster_free_p (fat_entry_spec fs' x))
            \<and> (\<forall>a. a \<notin> set (chain_addrs fs cs) \<longrightarrow> fs_byte fs' a = fs_byte fs a)"
    using fr ok2 s2 chain_addrs_clear [OF g2 z2] by blast
  have part2: "\<exists>fs''. fat_unlink fs0 pathname = Some (Inr 0, fs'')
                 \<and> (\<forall>x \<in> set cs. fat_entry_clear fs'' x
                        \<and> fat_cluster_free_p (fat_entry_spec fs'' x))"
    if s: "fat_search fs0 pathname ff_init = Some (True, ff, fs)" and nd: "\<not> isdir ff"
      and cl: "ff_cluster ff = c" and re: "unlink_reaches fs ff cs n"
  proof -
    define it where "it = fst (snd (fat_de_first fs (parent_dir_cluster ff)))"
    define fs3 where "fs3 = snd (fat_sector_cache_read fs2 (it_sector it))"
    have it0: "it_offset it = 0" by (simp add: it_def fat_de_first_def Let_def)
    have it2: "fst (snd (fat_de_first fs2 (parent_dir_cluster ff))) = it"
      using geometry_fields [OF g2] fat_sector_calc_geometry [OF g2]
      by (simp add: it_def fat_de_first_def Let_def fat_dir_sectors_def)
    have first: "fat_de_first fs2 (parent_dir_cluster ff) = (0, it, fs3)"
      using it2 by (simp add: fat_de_first_def Let_def fs3_def)
    have ok3: "vol_ok fs3" and g3: "geometry fs3 = geometry fs"
      and sec3: "sector fs3 = it_sector it"
      using ok2 g2 by (simp_all add: fs3_def)
    have b3: "fs_byte fs3 = fs_byte fs2"
      using ok2 by (simp add: fs3_def vol_ok_def)
    have s3: "\<forall>a. a \<notin> set (chain_addrs fs cs) \<longrightarrow> fs_byte fs3 a = fs_byte fs a"
      using s2 by (simp add: b3)
    have sf: "scan_finds fs (chain_addrs fs cs) ff it n"
      using re by (simp add: unlink_reaches_def it_def)
    from scan_returns [OF ok3 g3 s3 sec3 sf] obtain fs4 where
      sc: "fat_unlink_scan fs3 ff it (unat (it_offset it)) = Some fs4"
      and g4: "geometry fs4 = geometry fs"
      and f4: "\<forall>a \<in> set (chain_addrs fs cs). fs_byte fs4 a = fs_byte fs3 a"
      by blast
    have z4: "\<forall>a \<in> set (chain_addrs fs cs). fs_byte fs4 a = 0"
      using f4 z2 by (simp add: b3)
    have "fat_unlink fs0 pathname = Some (Inr 0, fs4)"
      using s nd cl fr first sc by (simp add: fat_unlink_def it0)
    then show ?thesis using chain_addrs_clear [OF g4 z4] by blast
  qed
  show ?thesis using part1 part2 by blast
qed

text \<open>At the small volume: the unlink of \<^verbatim>\<open>note.txt\<close>, whose chain is the clusters 3
  and 4 and whose slot is the second of the root directory.\<close>

lemma fat_chain_free_clears_vol:
  "\<exists>fs''. fat_unlink vol (Some note_txt) = Some (Inr 0, fs'')
      \<and> fat_entry_clear fs'' 3 \<and> fat_entry_clear fs'' 4
      \<and> fat_cluster_free_p (fat_entry_spec fs'' 3) \<and> fat_cluster_free_p (fat_entry_spec fs'' 4)"
proof -
  have "case fat_search vol (Some note_txt) ff_init of
          Some (found, ff, fs1) \<Rightarrow>
            found \<and> \<not> isdir ff \<and> ff_cluster ff = 3 \<and> is_chain fs1 3 [3, 4]
            \<and> fat_value fs1 3 = fat_entry_spec fs1 3 \<and> fat_value fs1 4 = fat_entry_spec fs1 4
            \<and> unlink_reaches fs1 ff [3, 4] 1
        | None \<Rightarrow> False"
    by code_simp
  then obtain ff fs1 where s: "fat_search vol (Some note_txt) ff_init = Some (True, ff, fs1)"
    and f: "\<not> isdir ff" "ff_cluster ff = 3" "is_chain fs1 3 [3, 4]"
      "unlink_reaches fs1 ff [3, 4] 1"
    and ag: "\<forall>x \<in> set [3, 4]. fat_value fs1 x = fat_entry_spec fs1 x"
    by (auto split: option.splits)
  have ok: "vol_ok vol"
    by (simp add: vol_ok_def cache_valid_def vol_def FAT_SECTOR_SIZE_def)
  have ok1: "vol_ok fs1" using fat_search_keeps [OF s ok] by (simp add: keeps_def)
  from fat_chain_free_clears [OF ok1 f(3) ag, of vol "Some note_txt" ff 1] s f
  show ?thesis by auto
qed

text \<open>
  C5: \<^verbatim>\<open>fat_cluster_chain_free\<close> clears the entry of every cluster of a well-formed
  chain, and after the unlink of a file every cluster of its chain is free.
  \<^verbatim>\<open>fat_cluster_chain_free\<close> takes each link from \<^verbatim>\<open>fat_entry_get\<close>, which compares
  the entry with the end-of-chain range before it masks it.  On the volume
  \<open>vol_chain_reserved\<close> the entry of cluster 3 is stored as \<open>0x10000004\<close>: masked it
  is 4, so the chain of \<^verbatim>\<open>note.txt\<close> is the clusters 3 and 4, well-formed.
  \<^verbatim>\<open>fat_entry_get\<close> returns an end of chain for it, so \<^verbatim>\<open>fat_cluster_chain_free\<close>
  clears the entry of cluster 3 and stops: the entry of cluster 4 stays
  \<open>0x0FFFFFFF\<close>, not free.  The same holds after \<^verbatim>\<open>fat_unlink\<close> of \<^verbatim>\<open>note.txt\<close>,
  which returns 0.
\<close>

theorem fat_chain_free_stops_at_reserved_bits:
  "is_chain vol_chain_reserved 3 [3, 4]
   \<and> fat_entry_disk vol_chain_reserved 3 = 0x10000004
   \<and> (case fat_cluster_chain_free vol_chain_reserved 3 of
         None \<Rightarrow> False
       | Some fs' \<Rightarrow>
           fat_entry_disk fs' 3 = 0 \<and> fat_entry_disk fs' 4 = 0x0fffffff
           \<and> \<not> fat_cluster_free_p (fat_entry_spec fs' 4))
   \<and> (case fat_unlink vol_chain_reserved (Some note_txt) of
         None \<Rightarrow> False
       | Some (r, fs') \<Rightarrow>
           r = Inr 0 \<and> fat_entry_disk fs' 3 = 0 \<and> fat_entry_disk fs' 4 = 0x0fffffff
           \<and> \<not> fat_cluster_free_p (fat_entry_spec fs' 4))"
  by code_simp

end
